theory Spec2Isabelle
  imports Main "HOL-Library.Word"
begin

unbundle bit_operations_syntax

section \<open>EHCI host-controller driver (usb/ehci/ehci.c): data model\<close>

text \<open>
  The driver runs on 32-bit targets: \<open>uint32_t\<close>, \<open>size_t\<close> and \<open>unsigned\<close> values are
  \<open>32 word\<close>. Driver-side records (\<open>ehci_qtd_t\<close>, \<open>ehci_qh_t\<close>) are referred to by
  their address, a natural number; \<open>NULL\<close> is \<open>None\<close>. The circular lists of
  \<open>sys/list.h\<close> (\<open>LIST_ADD\<close> appends at the tail, \<open>LIST_REMOVE\<close> of the head moves
  the head to its successor) are lists of addresses in ring order, the head first.
\<close>

type_synonym u32 = "32 word"
type_synonym addr = nat

subsection \<open>Constants of ehci.h\<close>

text \<open>
  Modelled from the spec: ehci.h is not under src/. The token layout is the one of the
  EHCI qTD: the status byte holds Active (bit 7), Halted (6), Data Buffer Error (5),
  Babble (4), Transaction Error (3); IOC is bit 15 and the byte count is bits 16-30,
  as the shifts of \<open>ehci_qtdDump\<close> read them.
\<close>

definition QTD_ACTIVE :: u32 where "QTD_ACTIVE = 0x80"
definition QTD_HALTED :: u32 where "QTD_HALTED = 0x40"
definition QTD_BUFERR :: u32 where "QTD_BUFERR = 0x20"
definition QTD_BABBLE :: u32 where "QTD_BABBLE = 0x10"
definition QTD_XACT :: u32 where "QTD_XACT = 0x08"
definition QTD_IOC :: u32 where "QTD_IOC = 0x8000"
definition QTD_PTR_INVALID :: u32 where "QTD_PTR_INVALID = 1"
definition QH_PTR_INVALID :: u32 where "QH_PTR_INVALID = 1"

definition QTD_ERRMASK :: u32 where
  "QTD_ERRMASK = QTD_XACT OR QTD_BABBLE OR QTD_BUFERR OR QTD_HALTED"

definition QTD_LEN :: "u32 \<Rightarrow> u32" where
  "QTD_LEN token = drop_bit 16 token AND 0x7fff"

text \<open>
  Modelled from the spec: the fields of the QH information words, in the layout of the
  EHCI queue head: data-toggle control is bit 14, the endpoint speed bits 12-13 (high
  speed is 2), the control-endpoint flag bit 27; in the second word the S-mask is
  bits 0-7 and the C-mask bits 8-15.
\<close>

definition QH_DT :: u32 where "QH_DT = 0x4000"
definition QH_HIGH_SPEED :: u32 where "QH_HIGH_SPEED = 0x2000"
definition QH_CTRL :: u32 where "QH_CTRL = 0x08000000"
definition QH_SMASK :: u32 where "QH_SMASK = 0x000000ff"
definition QH_CMASK :: u32 where "QH_CMASK = 0x0000ff00"

definition EHCI_PAGE_SIZE :: u32 where "EHCI_PAGE_SIZE = 4096"
definition EHCI_QH_NBUFS :: nat where "EHCI_QH_NBUFS = 5"
definition EHCI_TRANS_ERRORS :: u32 where "EHCI_TRANS_ERRORS = 3"

definition QTD_OFFSET :: "u32 \<Rightarrow> u32" where
  "QTD_OFFSET a = a AND (EHCI_PAGE_SIZE - 1)"

text \<open>\<open>ENOMEM\<close> of \<open>errno.h\<close>.\<close>

definition ENOMEM :: int where "ENOMEM = 12"

subsection \<open>Descriptors\<close>

text \<open>An \<open>ehci_qtd_t\<close> together with the \<open>struct qtd\<close> hardware block it owns.\<close>

record ehci_qtd =
  qtd_next :: u32
  qtd_altnext :: u32
  qtd_token :: u32
  qtd_buf :: "u32 list"
  qtd_buf_hi :: "u32 list"
  qtd_paddr :: u32
  qtd_qh :: "addr option"

text \<open>An \<open>ehci_qh_t\<close> together with the \<open>struct qh\<close> hardware block it owns.\<close>

record ehci_qh =
  qh_info0 :: u32
  qh_info1 :: u32
  qh_token :: u32
  qh_horizontal :: u32
  qh_current :: u32
  qh_nextQtd :: u32
  qh_altnextQtd :: u32
  qh_buf :: "u32 list"
  qh_buf_hi :: "u32 list"
  qh_next :: "addr option"
  qh_prev :: "addr option"
  qh_period :: u32
  qh_phase :: u32
  qh_uframe :: u32
  qh_lastQtd :: "addr option"

subsection \<open>Types of the USB stack\<close>

text \<open>
  Modelled from the spec: the headers of the generic USB stack (usbhost.h, hcd.h) are
  not under src/. A transfer has a type, a direction, a setup packet, a buffer, a
  size and the private pointer \<open>hcdpriv\<close> (its qTD ring); a pipe has the device
  (address, speed, roothub or not), the endpoint number, a type, the maximum packet
  length, the interval and its \<open>hcdpriv\<close> slot (the QH). Buffers are virtual
  addresses, \<open>NULL\<close> being 0. The speed codes are the EPS field of the QH
  (full 0, low 1, high 2) and the PID codes those of the qTD token (OUT 0, IN 1,
  SETUP 2).
\<close>

datatype usb_transfer_type =
  usb_transfer_control | usb_transfer_interrupt | usb_transfer_bulk | usb_transfer_isochronous

datatype usb_dir = usb_dir_out | usb_dir_in

datatype usb_speed = usb_full_speed | usb_low_speed | usb_high_speed

datatype ehci_token = out_token | in_token | setup_token

fun speed_code :: "usb_speed \<Rightarrow> u32" where
  "speed_code usb_full_speed = 0"
| "speed_code usb_low_speed = 1"
| "speed_code usb_high_speed = 2"

fun pid_code :: "ehci_token \<Rightarrow> u32" where
  "pid_code out_token = 0"
| "pid_code in_token = 1"
| "pid_code setup_token = 2"

record usb_transfer =
  t_type :: usb_transfer_type
  t_direction :: usb_dir
  t_setup :: u32
  t_buffer :: u32
  t_size :: u32
  t_hcdpriv :: "addr list"

record usb_pipe =
  dev_address :: u32
  dev_speed :: usb_speed
  dev_isRoothub :: bool
  pipe_num :: u32
  pipe_type :: usb_transfer_type
  maxPacketLen :: u32
  interval :: u32
  pipe_hcdpriv :: "addr option"

text \<open>\<open>sizeof(usb_setup_packet_t)\<close>: the eight bytes of a USB setup packet.\<close>

definition SETUP_PACKET_SIZE :: u32 where "SETUP_PACKET_SIZE = 8"

subsection \<open>Driver state\<close>

text \<open>
  The \<open>ehci_t\<close> of one controller, with the memory it manages. \<open>qtds\<close> and
  \<open>qhs\<close> are the stores of descriptor records: a total function, so that a record
  fresh from \<open>malloc\<close> holds whatever the store has there. \<open>destroyed\<close> lists the
  descriptors handed to \<open>usb_free\<close> and \<open>free\<close>. \<open>mem_next\<close> is the next unused
  address and \<open>mem_ok\<close> the outcomes of the coming descriptor allocations
  (\<open>malloc\<close> followed by \<open>usb_alloc\<close>): \<open>True\<close> when both succeed; once the list
  is used up memory is exhausted.
\<close>

record ehci =
  qtds :: "addr \<Rightarrow> ehci_qtd"
  qhs :: "addr \<Rightarrow> ehci_qh"
  qtdPool :: "addr list"
  nqtds :: int
  qhPool :: "addr list"
  nqhs :: int
  asyncList :: "addr option"
  periodicNodes :: "addr option list"
  periodicList :: "u32 list"
  destroyed :: "addr list"
  mem_next :: addr
  mem_ok :: "bool list"

text \<open>The part of \<open>hcd_t\<close> the driver uses: its \<open>ehci_t\<close> and the in-flight transfers.\<close>

record hcd =
  priv :: ehci
  transfers :: "usb_transfer list"

subsection \<open>Platform parameters\<close>

text \<open>
  Modelled from the spec: what ehci.h, board_config.h and the platform supply and is
  not under src/ is a parameter: the address translation \<open>va2pa\<close>, the macros
  \<open>QTD_PTR\<close> and \<open>QH_PTR\<close> that turn a descriptor into the pointer word the
  controller reads (the code applies \<open>QH_PTR\<close> to \<open>qh->next\<close> also when that
  is \<open>NULL\<close>, hence the option), and the build-time configuration
  \<open>EHCI_PERIODIC_SIZE\<close> (128 or 1024), \<open>EHCI_MAX_QTD_POOL\<close>,
  \<open>EHCI_MAX_QH_POOL\<close>. The roothub emulation \<open>ehci_roothubReq\<close> is a parameter
  too: it returns a code and may change the controller, the transfer and the pipe.
\<close>

record platform =
  va2pa :: "u32 \<Rightarrow> u32"
  QTD_PTR :: "addr \<Rightarrow> u32"
  QH_PTR :: "addr option \<Rightarrow> u32"
  EHCI_PERIODIC_SIZE :: nat
  EHCI_MAX_QTD_POOL :: int
  EHCI_MAX_QH_POOL :: int
  ehci_roothubReq :: "hcd \<Rightarrow> usb_transfer \<Rightarrow> usb_pipe \<Rightarrow> int \<times> hcd \<times> usb_transfer \<times> usb_pipe"

text \<open>
  A function of the model returns \<open>None\<close> where the C function does not return or
  has no defined result: a \<open>NULL\<close> dereference, a division by zero, a shift that C
  leaves undefined, or a loop that never ends.
\<close>

section \<open>Descriptor pools\<close>

definition ehci_qtdGet :: "ehci \<Rightarrow> addr option \<times> ehci" where
  "ehci_qtdGet e =
     (case qtdPool e of
        [] \<Rightarrow> (None, e)
      | qtd # rest \<Rightarrow> (Some qtd, e\<lparr>qtdPool := rest, nqtds := nqtds e - 1\<rparr>))"

text \<open>
  One round of the loop of \<open>ehci_qtdsPut\<close>, for the qTD \<open>q\<close> just taken off
  \<open>*head\<close>. When the pool is at its cap the head of the pool is destroyed first; with
  an empty pool that head is \<open>NULL\<close> and \<open>t->hw\<close> faults.
\<close>

definition qtdsPut_one :: "platform \<Rightarrow> ehci \<Rightarrow> addr \<Rightarrow> ehci option" where
  "qtdsPut_one pf e q =
     (let e1 = (if nqtds e \<ge> EHCI_MAX_QTD_POOL pf
                then (case qtdPool e of
                        [] \<Rightarrow> None
                      | t # rest \<Rightarrow>
                          Some (e\<lparr>qtdPool := rest, destroyed := t # destroyed e,
                                  nqtds := nqtds e - 1\<rparr>))
                else Some e)
      in case e1 of
           None \<Rightarrow> None
         | Some e1 \<Rightarrow>
             Some (e1\<lparr>qtdPool := qtdPool e1 @ [q],
                      qtds := (qtds e1)(q := (qtds e1 q)\<lparr>qtd_qh := None\<rparr>),
                      nqtds := nqtds e1 + 1\<rparr>))"

fun ehci_qtdsPut :: "platform \<Rightarrow> ehci \<Rightarrow> addr list \<Rightarrow> ehci option" where
  "ehci_qtdsPut pf e [] = Some e"
| "ehci_qtdsPut pf e (q # head) =
     (case qtdsPut_one pf e q of
        None \<Rightarrow> None
      | Some e' \<Rightarrow> ehci_qtdsPut pf e' head)"

text \<open>
  Modelled from the spec: the macros \<open>LIST_ADD\<close> and \<open>LIST_REMOVE\<close> of
  sys/list.h are not under src/. A pool is a ring, doubly linked through \<open>next\<close>
  and \<open>prev\<close>, of which \<open>qhPool\<close> is the head; the model keeps its members
  as a list in ring order from the head, so the \<open>prev\<close> of the head is the last
  member. \<open>LIST_ADD\<close> puts the new member \<open>t\<close> before the head, that is at the
  end of the ring, and a first member is linked to itself. \<open>LIST_REMOVE\<close>, here
  always of the head \<open>t\<close> of the ring \<open>t # rest\<close>, joins its two neighbours
  and clears both links of \<open>t\<close>. The rings of qTDs are lists in the model, so for
  them the lists alone say it.
\<close>

definition list_add_qh :: "(addr \<Rightarrow> ehci_qh) \<Rightarrow> addr list \<Rightarrow> addr \<Rightarrow> (addr \<Rightarrow> ehci_qh)" where
  "list_add_qh qs pool t =
     (case pool of
        [] \<Rightarrow> qs(t := (qs t)\<lparr>qh_next := Some t, qh_prev := Some t\<rparr>)
      | h # rest \<Rightarrow>
          let q1 = qs(t := (qs t)\<lparr>qh_prev := Some (last pool)\<rparr>);
              q2 = q1(last pool := (q1 (last pool))\<lparr>qh_next := Some t\<rparr>);
              q3 = q2(t := (q2 t)\<lparr>qh_next := Some h\<rparr>)
          in q3(h := (q3 h)\<lparr>qh_prev := Some t\<rparr>))"

definition list_remove_qh :: "(addr \<Rightarrow> ehci_qh) \<Rightarrow> addr \<Rightarrow> addr list \<Rightarrow> (addr \<Rightarrow> ehci_qh)" where
  "list_remove_qh qs t rest =
     (let q2 = (case rest of
                  [] \<Rightarrow> qs
                | n # ms \<Rightarrow>
                    let q1 = qs(last rest := (qs (last rest))\<lparr>qh_next := Some n\<rparr>)
                    in q1(n := (q1 n)\<lparr>qh_prev := Some (last rest)\<rparr>))
      in q2(t := (q2 t)\<lparr>qh_next := None, qh_prev := None\<rparr>))"

definition ehci_qhGet :: "ehci \<Rightarrow> addr option \<times> ehci" where
  "ehci_qhGet e =
     (case qhPool e of
        [] \<Rightarrow> (None, e)
      | qh # rest \<Rightarrow>
          (Some qh, e\<lparr>qhs := list_remove_qh (qhs e) qh rest, qhPool := rest,
                       nqhs := nqhs e - 1\<rparr>))"

text \<open>
  \<open>ehci_qhPut\<close>. At the cap the head of the pool is taken off and destroyed
  first; with an empty pool that head is \<open>NULL\<close> and \<open>t->hw\<close> faults.
\<close>

definition ehci_qhPut :: "platform \<Rightarrow> ehci \<Rightarrow> addr \<Rightarrow> ehci option" where
  "ehci_qhPut pf e qh =
     (let e1 = (if nqhs e \<ge> EHCI_MAX_QH_POOL pf
                then (case qhPool e of
                        [] \<Rightarrow> None
                      | t # rest \<Rightarrow>
                          Some (e\<lparr>qhs := list_remove_qh (qhs e) t rest, qhPool := rest,
                                  destroyed := t # destroyed e, nqhs := nqhs e - 1\<rparr>))
                else Some e)
      in case e1 of
           None \<Rightarrow> None
         | Some e1 \<Rightarrow>
             Some (e1\<lparr>qhs := list_add_qh (qhs e1) (qhPool e1) qh,
                      qhPool := qhPool e1 @ [qh], nqhs := nqhs e1 + 1\<rparr>))"

text \<open>
  The miss path of \<open>ehci_qtdAlloc\<close> and \<open>ehci_qhAlloc\<close>: \<open>malloc\<close> of the record and
  \<open>usb_alloc\<close> of its hardware block. If either fails the result is \<open>NULL\<close>.
\<close>

definition mem_alloc :: "ehci \<Rightarrow> addr option \<times> ehci" where
  "mem_alloc e =
     (case mem_ok e of
        [] \<Rightarrow> (None, e)
      | ok # oks \<Rightarrow>
          if ok then (Some (mem_next e), e\<lparr>mem_next := mem_next e + 1, mem_ok := oks\<rparr>)
          else (None, e\<lparr>mem_ok := oks\<rparr>))"

section \<open>qTD builder\<close>

text \<open>
  The first \<open>for\<close> loop of \<open>ehci_qtdAlloc\<close>, from buffer page \<open>i\<close> on: the state
  is \<open>i\<close>, \<open>bytes\<close>, \<open>data\<close> and the two buffer arrays; the result is the state
  at the exit of the loop. \<open>offs\<close> is an \<open>int\<close> and \<open>bytes\<close> a \<open>size_t\<close> of the
  same width, so \<open>bytes += offs\<close> is the addition of 32-bit words. The division by
  \<open>maxpacksz\<close> traps when that is zero.
\<close>

function qtdAlloc_pages ::
  "platform \<Rightarrow> u32 \<Rightarrow> u32 \<Rightarrow> nat \<Rightarrow> u32 \<Rightarrow> u32 \<Rightarrow> u32 list \<Rightarrow> u32 list
    \<Rightarrow> (nat \<times> u32 \<times> u32 list \<times> u32 list) option" where
  "qtdAlloc_pages pf maxpacksz sz i bytes data buf buf_hi =
     (if i < EHCI_QH_NBUFS \<and> bytes \<noteq> sz then
        let buf' = buf[i := va2pa pf data AND NOT 0xfff];
            buf_hi' = buf_hi[i := 0];
            offs = min (sz - bytes) EHCI_PAGE_SIZE
        in if i = EHCI_QH_NBUFS - 1 \<and> bytes + offs < sz then
             if maxpacksz = 0 then None
             else
               let offs' = ((bytes + offs) div maxpacksz) * maxpacksz - bytes
               in qtdAlloc_pages pf maxpacksz sz (i + 1) (bytes + offs') (data + offs') buf' buf_hi'
           else qtdAlloc_pages pf maxpacksz sz (i + 1) (bytes + offs) (data + offs) buf' buf_hi'
      else Some (i, bytes, buf, buf_hi))"
  by pat_completeness auto
termination
  by (relation "measure (\<lambda>(pf, maxpacksz, sz, i, bytes, data, buf, buf_hi). EHCI_QH_NBUFS - i)") auto

declare qtdAlloc_pages.simps [simp del]

text \<open>The second \<open>for\<close> loop: the buffer pointers left unused are zeroed.\<close>

function qtdAlloc_zero :: "nat \<Rightarrow> u32 list \<Rightarrow> u32 list \<Rightarrow> u32 list \<times> u32 list" where
  "qtdAlloc_zero i buf buf_hi =
     (if i < EHCI_QH_NBUFS then qtdAlloc_zero (i + 1) (buf[i := 0]) (buf_hi[i := 0])
      else (buf, buf_hi))"
  by pat_completeness auto
termination
  by (relation "measure (\<lambda>(i, buf, buf_hi). EHCI_QH_NBUFS - i)") auto

declare qtdAlloc_zero.simps [simp del]

text \<open>
  The head of \<open>ehci_qtdAlloc\<close>: a qTD of the pool is reused; on a miss a record
  and its hardware block are allocated and the record gets its \<open>paddr\<close>.
\<close>

definition qtdAlloc_get :: "platform \<Rightarrow> ehci \<Rightarrow> addr option \<times> ehci" where
  "qtdAlloc_get pf e =
     (case ehci_qtdGet e of
        (Some q, e1) \<Rightarrow> (Some q, e1)
      | (None, e1) \<Rightarrow>
          (case mem_alloc e1 of
             (None, e') \<Rightarrow> (None, e')
           | (Some q, e') \<Rightarrow>
               (Some q, e'\<lparr>qtds := (qtds e')(q := (qtds e' q)\<lparr>qtd_paddr := QTD_PTR pf q\<rparr>)\<rparr>)))"

text \<open>
  The rest of \<open>ehci_qtdAlloc\<close>, on the record \<open>d\<close> of the qTD: the token, the
  pointers and, with a buffer, the pages and the byte count. The result is the
  record and the value of \<open>*size\<close> at the return.
\<close>

definition qtdAlloc_init ::
  "platform \<Rightarrow> ehci_qtd \<Rightarrow> ehci_token \<Rightarrow> u32 \<Rightarrow> u32 \<Rightarrow> u32 \<Rightarrow> bool
    \<Rightarrow> (ehci_qtd \<times> u32) option" where
  "qtdAlloc_init pf d0 pid maxpacksz data sz datax =
     (let token = push_bit 31 (of_bool datax) OR push_bit 8 (pid_code pid)
                    OR push_bit 10 EHCI_TRANS_ERRORS OR QTD_ACTIVE;
          d = d0\<lparr>qtd_token := token, qtd_next := QTD_PTR_INVALID,
                  qtd_altnext := QTD_PTR_INVALID\<rparr>
      in if data \<noteq> 0 then
           let buf0 = va2pa pf data;
               offs = min (EHCI_PAGE_SIZE - QTD_OFFSET buf0) sz
           in case qtdAlloc_pages pf maxpacksz sz 1 offs (data + offs)
                     ((qtd_buf d)[0 := buf0]) ((qtd_buf_hi d)[0 := 0]) of
                None \<Rightarrow> None
              | Some (i, bytes, buf, buf_hi) \<Rightarrow>
                  let (buf', buf_hi') = qtdAlloc_zero i buf buf_hi
                  in Some (d\<lparr>qtd_buf := buf', qtd_buf_hi := buf_hi',
                              qtd_token := token OR push_bit 16 bytes\<rparr>, sz - bytes)
         else Some (d, sz))"

text \<open>
  \<open>ehci_qtdAlloc\<close>: the result is the qTD (or \<open>NULL\<close>), the value of \<open>*size\<close> at
  the return, and the state.
\<close>

definition ehci_qtdAlloc ::
  "platform \<Rightarrow> ehci \<Rightarrow> ehci_token \<Rightarrow> u32 \<Rightarrow> u32 \<Rightarrow> u32 \<Rightarrow> bool
    \<Rightarrow> (addr option \<times> u32 \<times> ehci) option" where
  "ehci_qtdAlloc pf e pid maxpacksz data sz datax =
     (case qtdAlloc_get pf e of
        (None, e2) \<Rightarrow> Some (None, sz, e2)
      | (Some q, e2) \<Rightarrow>
          (case qtdAlloc_init pf (qtds e2 q) pid maxpacksz data sz datax of
             None \<Rightarrow> None
           | Some (d, sz') \<Rightarrow> Some (Some q, sz', e2\<lparr>qtds := (qtds e2)(q := d)\<rparr>)))"

text \<open>
  Each call of \<open>ehci_qtdAlloc\<close> that returns a qTD took it from the pool or used up
  one allocation of the memory: the sum of both goes down.
\<close>

lemma qtdAlloc_get_supply:
  assumes "qtdAlloc_get pf e = (Some q, e')"
  shows "length (qtdPool e') + length (mem_ok e') < length (qtdPool e) + length (mem_ok e)"
proof (cases "qtdPool e")
  case Nil
  then have g: "ehci_qtdGet e = (None, e)" by (simp add: ehci_qtdGet_def)
  show ?thesis
  proof (cases "mem_ok e")
    case Nil
    with g assms show ?thesis by (simp add: qtdAlloc_get_def mem_alloc_def)
  next
    case (Cons ok oks)
    with g assms \<open>qtdPool e = []\<close> show ?thesis
      by (cases ok) (auto simp: qtdAlloc_get_def mem_alloc_def)
  qed
next
  case (Cons a rest)
  then have "ehci_qtdGet e = (Some a, e\<lparr>qtdPool := rest, nqtds := nqtds e - 1\<rparr>)"
    by (simp add: ehci_qtdGet_def)
  with assms Cons show ?thesis by (auto simp: qtdAlloc_get_def)
qed

lemma ehci_qtdAlloc_supply:
  assumes "ehci_qtdAlloc pf e pid maxpacksz data sz datax = Some (Some q, sz', e')"
  shows "length (qtdPool e') + length (mem_ok e') < length (qtdPool e) + length (mem_ok e)"
proof -
  obtain r e2 where g: "qtdAlloc_get pf e = (r, e2)" by (cases "qtdAlloc_get pf e")
  show ?thesis
  proof (cases r)
    case None
    with g assms show ?thesis by (simp add: ehci_qtdAlloc_def)
  next
    case (Some q')
    with g have s: "length (qtdPool e2) + length (mem_ok e2) < length (qtdPool e) + length (mem_ok e)"
      by (simp add: qtdAlloc_get_supply)
    from Some g assms obtain d where "e' = e2\<lparr>qtds := (qtds e2)(q' := d)\<rparr>"
      by (auto simp: ehci_qtdAlloc_def split: option.splits)
    with s show ?thesis by simp
  qed
qed

text \<open>
  \<open>ehci_qtdAdd\<close>: the do-while loop that appends qTDs to \<open>*list\<close> until nothing
  remains. The result is the return value, \<open>*list\<close> and the state.
\<close>

function ehci_qtdAdd ::
  "platform \<Rightarrow> ehci \<Rightarrow> addr list \<Rightarrow> ehci_token \<Rightarrow> u32 \<Rightarrow> u32 \<Rightarrow> u32 \<Rightarrow> u32 \<Rightarrow> bool
    \<Rightarrow> (int \<times> addr list \<times> ehci) option" where
  "ehci_qtdAdd pf e list token maxpacksz buf sz remaining dt =
     (case ehci_qtdAlloc pf e token maxpacksz (buf + sz - remaining) remaining dt of
        None \<Rightarrow> None
      | Some (None, remaining', e') \<Rightarrow> Some (- ENOMEM, list, e')
      | Some (Some tmp, remaining', e') \<Rightarrow>
          if remaining' > 0
          then ehci_qtdAdd pf e' (list @ [tmp]) token maxpacksz buf sz remaining' (\<not> dt)
          else Some (0, list @ [tmp], e'))"
  by pat_completeness auto
termination
  by (relation "measure (\<lambda>(pf, e, list, token, maxpacksz, buf, sz, remaining, dt).
        length (qtdPool e) + length (mem_ok e))")
     (auto dest: ehci_qtdAlloc_supply)

declare ehci_qtdAdd.simps [simp del]

section \<open>Queue heads\<close>

text \<open>
  \<open>ehci_qhAlloc\<close>: a QH of the pool or a fresh one, with its fields reset. The loop
  over the buffer pointers is the zeroing loop from index 0.
\<close>

definition ehci_qhAlloc :: "ehci \<Rightarrow> addr option \<times> ehci" where
  "ehci_qhAlloc e =
     (case (case ehci_qhGet e of
              (Some qh, e1) \<Rightarrow> (Some qh, e1)
            | (None, e1) \<Rightarrow> mem_alloc e1) of
        (None, e2) \<Rightarrow> (None, e2)
      | (Some qh, e2) \<Rightarrow>
          (let h = qhs e2 qh;
               (buf, buf_hi) = qtdAlloc_zero 0 (qh_buf h) (qh_buf_hi h)
           in (Some qh,
               e2\<lparr>qhs := (qhs e2)(qh := h\<lparr>qh_info0 := 0, qh_info1 := 0, qh_token := 0,
                      qh_horizontal := QH_PTR_INVALID, qh_current := QTD_PTR_INVALID,
                      qh_nextQtd := QTD_PTR_INVALID, qh_altnextQtd := QTD_PTR_INVALID,
                      qh_next := None, qh_prev := None, qh_period := 0, qh_uframe := 0,
                      qh_phase := 0, qh_lastQtd := None, qh_buf := buf, qh_buf_hi := buf_hi\<rparr>)\<rparr>)))"

text \<open>
  The \<open>while\<close> loop of \<open>ehci_qhConf\<close> for full and low speed. \<open>period\<close> is
  unsigned, so the product wraps and the comparison is unsigned: for an interval
  above \<open>2^31\<close> the period reaches 0 and the loop never ends.
\<close>

partial_function (option) qhConf_period :: "u32 \<Rightarrow> u32 \<Rightarrow> u32 option" where
  "qhConf_period period iv =
     (if period * 2 < iv then qhConf_period (period * 2) iv else Some period)"

text \<open>
  \<open>ehci_qhConf\<close> on the record of the QH. The shift \<open>1 << (interval - 1)\<close> is a
  shift of the \<open>int\<close> 1: C defines it for an interval from 1 to 31 only (a count
  from 0 to 30), where the result is positive and \<open>>> 3\<close> is the logical shift.
  For any other interval the behaviour is undefined and the model has no result.
\<close>

definition ehci_qhConf :: "ehci_qh \<Rightarrow> usb_pipe \<Rightarrow> ehci_qh option" where
  "ehci_qhConf qh pipe =
     (let info0 = dev_address pipe OR push_bit 8 (pipe_num pipe)
                    OR push_bit 12 (speed_code (dev_speed pipe))
                    OR (if pipe_type pipe = usb_transfer_control then QH_DT else 0)
                    OR push_bit 16 (maxPacketLen pipe);
          info0' = (if pipe_type pipe = usb_transfer_control \<and> dev_speed pipe \<noteq> usb_high_speed
                    then info0 OR QH_CTRL else info0);
          qh1 = qh\<lparr>qh_info0 := info0' OR push_bit 28 3, qh_info1 := 0\<rparr>
      in if pipe_type pipe = usb_transfer_interrupt then
           if dev_speed pipe = usb_high_speed then
             if 1 \<le> interval pipe \<and> interval pipe \<le> 31 then
               let period = drop_bit 3 (push_bit (unat (interval pipe - 1)) (1 :: u32))
               in Some (qh1\<lparr>qh_period := (if period = 0 then 1 else period)\<rparr>)
             else None
           else
             (case qhConf_period 1 (interval pipe) of
                None \<Rightarrow> None
              | Some period \<Rightarrow> Some (qh1\<lparr>qh_period := period\<rparr>))
         else Some qh1)"

section \<open>Periodic schedule\<close>

text \<open>The inner loop of \<open>ehci_bandAlloc\<close>: the number of QHs on the chain from \<open>tmp\<close>.\<close>

partial_function (option) bandAlloc_count ::
  "(addr \<Rightarrow> ehci_qh) \<Rightarrow> addr option \<Rightarrow> u32 \<Rightarrow> u32 option" where
  "bandAlloc_count qs tmp n =
     (case tmp of
        None \<Rightarrow> Some n
      | Some a \<Rightarrow> bandAlloc_count qs (qh_next (qs a)) (n + 1))"

text \<open>
  The first loop of \<open>ehci_bandAlloc\<close>, from index \<open>i\<close> on, with the current
  \<open>best\<close> and \<open>qh->phase\<close>; the result is \<open>qh->phase\<close> at the exit.
\<close>

function bandAlloc_phase ::
  "platform \<Rightarrow> ehci \<Rightarrow> u32 \<Rightarrow> nat \<Rightarrow> u32 \<Rightarrow> u32 \<Rightarrow> u32 option" where
  "bandAlloc_phase pf e period i best phase =
     (if of_nat i < period \<and> i < EHCI_PERIODIC_SIZE pf then
        (case bandAlloc_count (qhs e) (periodicNodes e ! i) 0 of
           None \<Rightarrow> None
         | Some n \<Rightarrow>
             if n < best then bandAlloc_phase pf e period (i + 1) n (of_nat i)
             else bandAlloc_phase pf e period (i + 1) best phase)
      else Some phase)"
  by pat_completeness auto
termination
  by (relation "measure (\<lambda>(pf, e, period, i, best, phase). EHCI_PERIODIC_SIZE pf - i)") auto

declare bandAlloc_phase.simps [simp del]

text \<open>
  The microframe census of \<open>ehci_bandAlloc\<close>: \<open>ucnt\<close> has eight counters; a
  \<open>uframe\<close> that is neither \<open>0xff\<close> nor below 8 would write outside the array.
\<close>

partial_function (option) bandAlloc_ucnt ::
  "(addr \<Rightarrow> ehci_qh) \<Rightarrow> addr option \<Rightarrow> u32 list \<Rightarrow> u32 list option" where
  "bandAlloc_ucnt qs tmp ucnt =
     (case tmp of
        None \<Rightarrow> Some ucnt
      | Some a \<Rightarrow>
          if qh_uframe (qs a) \<noteq> 0xff then
            if unat (qh_uframe (qs a)) < length ucnt
            then bandAlloc_ucnt qs (qh_next (qs a))
                   (ucnt[unat (qh_uframe (qs a)) := ucnt ! unat (qh_uframe (qs a)) + 1])
            else None
          else bandAlloc_ucnt qs (qh_next (qs a)) ucnt)"

text \<open>The last loop of \<open>ehci_bandAlloc\<close>: the first microframe with the least count.\<close>

function bandAlloc_uframe :: "u32 list \<Rightarrow> nat \<Rightarrow> u32 \<Rightarrow> u32 \<Rightarrow> u32" where
  "bandAlloc_uframe ucnt i best uframe =
     (if i < 8 then
        if ucnt ! i < best then bandAlloc_uframe ucnt (i + 1) (ucnt ! i) (of_nat i)
        else bandAlloc_uframe ucnt (i + 1) best uframe
      else uframe)"
  by pat_completeness auto
termination
  by (relation "measure (\<lambda>(ucnt, i, best, uframe). 8 - i)") auto

declare bandAlloc_uframe.simps [simp del]

text \<open>\<open>ehci_bandAlloc\<close>: sets \<open>qh->phase\<close> and \<open>qh->uframe\<close>.\<close>

definition ehci_bandAlloc :: "platform \<Rightarrow> ehci \<Rightarrow> addr \<Rightarrow> ehci option" where
  "ehci_bandAlloc pf e qh =
     (case bandAlloc_phase pf e (qh_period (qhs e qh)) 0 (- 1) 0 of
        None \<Rightarrow> None
      | Some phase \<Rightarrow>
          if qh_info0 (qhs e qh) AND QH_HIGH_SPEED \<noteq> 0 \<and> qh_period (qhs e qh) > 1 then
            (case bandAlloc_ucnt (qhs e) (periodicNodes e ! unat phase) (replicate 8 0) of
               None \<Rightarrow> None
             | Some ucnt \<Rightarrow>
                 Some (e\<lparr>qhs := (qhs e)(qh := (qhs e qh)\<lparr>qh_phase := phase,
                          qh_uframe := bandAlloc_uframe ucnt 0 (- 1) 0\<rparr>)\<rparr>))
          else Some (e\<lparr>qhs := (qhs e)(qh := (qhs e qh)\<lparr>qh_phase := phase, qh_uframe := 0xff\<rparr>)\<rparr>))"

text \<open>
  The search of \<open>ehci_qhLinkPeriodic\<close> for the QH after which the new one goes: the
  last of the chain whose successor has a period not below the new one.
\<close>

partial_function (option) linkPeriodic_find ::
  "(addr \<Rightarrow> ehci_qh) \<Rightarrow> addr option \<Rightarrow> u32 \<Rightarrow> addr option option" where
  "linkPeriodic_find qs t period =
     (case t of
        None \<Rightarrow> Some None
      | Some a \<Rightarrow>
          (case qh_next (qs a) of
             None \<Rightarrow> Some (Some a)
           | Some b \<Rightarrow>
               if qh_period (qs b) \<ge> period then linkPeriodic_find qs (Some b) period
               else Some (Some a)))"

text \<open>
  The loop that makes the QH the first element of every slot \<open>i\<close>, \<open>i + period\<close>,
  ...: with a period of 0 it never ends, and an \<open>int\<close> index that leaves the range
  of \<open>int\<close> goes on outside the arrays.
\<close>

function linkPeriodic_slots ::
  "platform \<Rightarrow> addr \<Rightarrow> nat \<Rightarrow> nat \<Rightarrow> addr option list \<Rightarrow> u32 list
    \<Rightarrow> (addr option list \<times> u32 list) option" where
  "linkPeriodic_slots pf qh period i nodes flist =
     (if i < EHCI_PERIODIC_SIZE pf then
        if period = 0 \<or> i + period \<ge> 2 ^ 31 then None
        else linkPeriodic_slots pf qh period (i + period)
               (nodes[i := Some qh]) (flist[i := QH_PTR pf (Some qh)])
      else Some (nodes, flist))"
  by pat_completeness auto
termination
  by (relation "measure (\<lambda>(pf, qh, period, i, nodes, flist). EHCI_PERIODIC_SIZE pf - i)") auto

declare linkPeriodic_slots.simps [simp del]

text \<open>
  The parts of \<open>ehci_qhLinkPeriodic\<close>: the S-mask and C-mask from the microframe
  chosen; the QH as new first element of its slots; the QH inserted after \<open>a\<close>
  (the statements applied to the store one after the other); the terminate bit of
  a new last element.
\<close>

definition linkPeriodic_masks :: "ehci \<Rightarrow> addr \<Rightarrow> ehci" where
  "linkPeriodic_masks e qh =
     e\<lparr>qhs := (qhs e)(qh := (qhs e qh)\<lparr>qh_info1 :=
            (if qh_uframe (qhs e qh) \<noteq> 0xff then push_bit (unat (qh_uframe (qhs e qh))) 1
             else QH_SMASK) OR QH_CMASK\<rparr>)\<rparr>"

definition linkPeriodic_first :: "platform \<Rightarrow> ehci \<Rightarrow> addr \<Rightarrow> ehci option" where
  "linkPeriodic_first pf e qh =
     (let phase = unat (qh_phase (qhs e qh));
          e1 = e\<lparr>qhs := (qhs e)(qh := (qhs e qh)\<lparr>qh_next := periodicNodes e ! phase\<rparr>)\<rparr>
      in case linkPeriodic_slots pf qh (unat (qh_period (qhs e1 qh))) phase
                (periodicNodes e1) (periodicList e1) of
           None \<Rightarrow> None
         | Some (nodes, flist) \<Rightarrow> Some (e1\<lparr>periodicNodes := nodes, periodicList := flist\<rparr>))"

definition linkPeriodic_inside :: "platform \<Rightarrow> ehci \<Rightarrow> addr \<Rightarrow> addr \<Rightarrow> ehci" where
  "linkPeriodic_inside pf e qh a =
     (let q1 = (qhs e)(qh := (qhs e qh)\<lparr>qh_next := qh_next (qhs e a)\<rparr>);
          q2 = q1(a := (q1 a)\<lparr>qh_next := Some qh\<rparr>);
          q3 = q2(qh := (q2 qh)\<lparr>qh_horizontal := QH_PTR pf (qh_next (q2 qh))\<rparr>);
          q4 = q3(a := (q3 a)\<lparr>qh_horizontal := QH_PTR pf (Some qh)\<rparr>)
      in e\<lparr>qhs := q4\<rparr>)"

definition linkPeriodic_last :: "ehci \<Rightarrow> addr \<Rightarrow> ehci" where
  "linkPeriodic_last e qh =
     (if qh_next (qhs e qh) = None
      then e\<lparr>qhs := (qhs e)(qh := (qhs e qh)
                \<lparr>qh_horizontal := qh_horizontal (qhs e qh) OR QH_PTR_INVALID\<rparr>)\<rparr>
      else e)"

definition ehci_qhLinkPeriodic :: "platform \<Rightarrow> ehci \<Rightarrow> addr \<Rightarrow> ehci option" where
  "ehci_qhLinkPeriodic pf e0 qh =
     (case ehci_bandAlloc pf e0 qh of
        None \<Rightarrow> None
      | Some e1 \<Rightarrow>
          let e = linkPeriodic_masks e1 qh;
              period = qh_period (qhs e qh);
              phase = unat (qh_phase (qhs e qh))
          in case linkPeriodic_find (qhs e) (periodicNodes e ! phase) period of
               None \<Rightarrow> None
             | Some t \<Rightarrow>
                 (case (case t of
                          None \<Rightarrow> linkPeriodic_first pf e qh
                        | Some a \<Rightarrow>
                            if qh_period (qhs e a) < period then linkPeriodic_first pf e qh
                            else Some (linkPeriodic_inside pf e qh a)) of
                    None \<Rightarrow> None
                  | Some e' \<Rightarrow> Some (linkPeriodic_last e' qh)))"

text \<open>
  The search of \<open>ehci_qhUnlinkPeriodic\<close> along the chain of one slot for the QH
  whose successor is \<open>qh\<close>.
\<close>

partial_function (option) unlinkPeriodic_find ::
  "(addr \<Rightarrow> ehci_qh) \<Rightarrow> addr option \<Rightarrow> addr \<Rightarrow> addr option option" where
  "unlinkPeriodic_find qs tmp qh =
     (case tmp of
        None \<Rightarrow> Some None
      | Some a \<Rightarrow>
          if qh_next (qs a) \<noteq> Some qh then unlinkPeriodic_find qs (qh_next (qs a)) qh
          else Some (Some a))"

text \<open>The loop of \<open>ehci_qhUnlinkPeriodic\<close> over the slots, from slot \<open>i\<close> on.\<close>

function unlinkPeriodic_slots :: "platform \<Rightarrow> ehci \<Rightarrow> addr \<Rightarrow> nat \<Rightarrow> ehci option" where
  "unlinkPeriodic_slots pf e qh i =
     (if i < EHCI_PERIODIC_SIZE pf then
        if periodicNodes e ! i = Some qh then
          unlinkPeriodic_slots pf
            (e\<lparr>periodicList := (periodicList e)
                   [i := (if qh_next (qhs e qh) \<noteq> None then QH_PTR pf (qh_next (qhs e qh))
                          else QH_PTR_INVALID)],
               periodicNodes := (periodicNodes e)[i := qh_next (qhs e qh)]\<rparr>) qh (i + 1)
        else
          (case unlinkPeriodic_find (qhs e) (periodicNodes e ! i) qh of
             None \<Rightarrow> None
           | Some None \<Rightarrow> unlinkPeriodic_slots pf e qh (i + 1)
           | Some (Some tmp) \<Rightarrow>
               (let q1 = (qhs e)(tmp := (qhs e tmp)\<lparr>qh_next := qh_next (qhs e qh)\<rparr>);
                    q2 = q1(tmp := (q1 tmp)\<lparr>qh_horizontal :=
                              (if qh_next (q1 tmp) \<noteq> None then QH_PTR pf (qh_next (q1 tmp))
                               else QH_PTR_INVALID)\<rparr>)
                in unlinkPeriodic_slots pf (e\<lparr>qhs := q2\<rparr>) qh (i + 1)))
      else Some e)"
  by pat_completeness auto
termination
  by (relation "measure (\<lambda>(pf, e, qh, i). EHCI_PERIODIC_SIZE pf - i)") auto

declare unlinkPeriodic_slots.simps [simp del]

definition ehci_qhUnlinkPeriodic :: "platform \<Rightarrow> ehci \<Rightarrow> addr \<Rightarrow> ehci option" where
  "ehci_qhUnlinkPeriodic pf e qh = unlinkPeriodic_slots pf e qh 0"

section \<open>Asynchronous schedule\<close>

text \<open>
  \<open>ehci_qhLinkAsync\<close>: the QH goes right after the dummy head. The statements are
  applied to the store one after the other, as the code does.
\<close>

definition ehci_qhLinkAsync :: "platform \<Rightarrow> ehci \<Rightarrow> addr \<Rightarrow> ehci option" where
  "ehci_qhLinkAsync pf e qh =
     (case asyncList e of
        None \<Rightarrow> None
      | Some ah \<Rightarrow>
          let q1 = (qhs e)(qh := (qhs e qh)\<lparr>qh_next := qh_next (qhs e ah)\<rparr>);
              q2 = q1(qh := (q1 qh)\<lparr>qh_prev := Some ah\<rparr>)
          in case qh_next (q2 qh) of
               None \<Rightarrow> None
             | Some n \<Rightarrow>
                 let q3 = q2(n := (q2 n)\<lparr>qh_prev := Some qh\<rparr>);
                     q4 = q3(ah := (q3 ah)\<lparr>qh_next := Some qh\<rparr>);
                     q5 = q4(qh := (q4 qh)\<lparr>qh_horizontal := qh_horizontal (q4 ah)\<rparr>);
                     q6 = q5(ah := (q5 ah)\<lparr>qh_horizontal := QH_PTR pf (Some qh)\<rparr>)
                 in Some (e\<lparr>qhs := q6\<rparr>))"

text \<open>
  \<open>ehci_qhUnlinkAsync\<close>. Stopping and starting the schedule writes controller
  registers and waits for the controller; the registers are not part of the state.
\<close>

definition ehci_qhUnlinkAsync :: "ehci \<Rightarrow> addr \<Rightarrow> ehci option" where
  "ehci_qhUnlinkAsync e qh =
     (case qh_prev (qhs e qh) of
        None \<Rightarrow> None
      | Some p \<Rightarrow>
          let q1 = (qhs e)(p := (qhs e p)\<lparr>qh_horizontal := qh_horizontal (qhs e qh)\<rparr>)
          in case qh_prev (q1 qh) of
               None \<Rightarrow> None
             | Some p' \<Rightarrow>
                 let q2 = q1(p' := (q1 p')\<lparr>qh_next := qh_next (q1 qh)\<rparr>)
                 in case qh_next (q2 qh) of
                      None \<Rightarrow> None
                    | Some n \<Rightarrow> Some (e\<lparr>qhs := q2(n := (q2 n)\<lparr>qh_prev := qh_prev (q2 qh)\<rparr>)\<rparr>))"

section \<open>Completion check\<close>

text \<open>
  The do-while loop of \<open>ehci_qtdsCheck\<close>: one pass over the ring of the transfer,
  counting the qTDs whose token has an error bit.
\<close>

fun qtdsCheck_errors :: "ehci_qtd list \<Rightarrow> int \<Rightarrow> int" where
  "qtdsCheck_errors [] error = error"
| "qtdsCheck_errors (q # qs) error =
     qtdsCheck_errors qs
       (if qtd_token q AND (QTD_XACT OR QTD_BABBLE OR QTD_BUFERR OR QTD_HALTED) \<noteq> 0
        then error + 1 else error)"

text \<open>
  \<open>ehci_qtdsCheck\<close> on the ring \<open>t->hcdpriv\<close> (its qTDs in ring order) and
  \<open>t->size\<close>; the result is \<open>(finished, *status)\<close>. After the loop \<open>qtds\<close> is the
  head again, so \<open>qtds->prev\<close> is the last qTD of the ring. An empty ring is a
  \<open>NULL\<close> \<open>hcdpriv\<close>, which the code dereferences: \<open>None\<close>. The difference
  \<open>t->size - QTD_LEN(...)\<close> is unsigned and is stored into an \<open>int\<close>.
\<close>

definition ehci_qtdsCheck :: "ehci_qtd list \<Rightarrow> u32 \<Rightarrow> (int \<times> int) option" where
  "ehci_qtdsCheck ring sz =
     (if ring = [] then None
      else
        let error = qtdsCheck_errors ring 0;
            (finished, status) = (if error > 0 then (1, - error) else (0, 0));
            prev = last ring
        in if qtd_token prev AND QTD_ACTIVE = 0 \<or> qtd_token prev AND QTD_HALTED \<noteq> 0
           then Some (1, sint (sz - QTD_LEN (qtd_token prev)))
           else Some (finished, status))"

text \<open>The number of qTDs of a ring with an error bit set.\<close>

definition error_count :: "ehci_qtd list \<Rightarrow> nat" where
  "error_count ring = length (filter (\<lambda>q. qtd_token q AND QTD_ERRMASK \<noteq> 0) ring)"

section \<open>Transfer submission\<close>

text \<open>
  The linking loop of \<open>ehci_transferEnqueue\<close>, from the qTDs \<open>ring\<close> still to
  visit: each gets the physical address of its ring successor (\<open>ehci_qtdLink\<close>; the
  successor of the last is the first) and the owning QH.
\<close>

fun transferEnqueue_link :: "ehci \<Rightarrow> addr \<Rightarrow> addr list \<Rightarrow> addr \<Rightarrow> ehci" where
  "transferEnqueue_link e qh [] first = e"
| "transferEnqueue_link e qh (q # rest) first =
     (let n = (case rest of [] \<Rightarrow> first | n # _ \<Rightarrow> n);
          d1 = (qtds e)(q := (qtds e q)\<lparr>qtd_next := qtd_paddr (qtds e n)\<rparr>);
          d2 = d1(q := (d1 q)\<lparr>qtd_qh := Some qh\<rparr>)
      in transferEnqueue_link (e\<lparr>qtds := d2\<rparr>) qh rest first)"

text \<open>
  \<open>ehci_enqueue\<close>: \<open>qh->lastQtd\<close> points to the hardware block of a qTD and is
  kept as the address of that qTD.
\<close>

definition ehci_enqueue :: "ehci \<Rightarrow> addr \<Rightarrow> addr \<Rightarrow> addr \<Rightarrow> ehci" where
  "ehci_enqueue e qh first lastq =
     (let d1 = (qtds e)(lastq := (qtds e lastq)\<lparr>qtd_next := QTD_PTR_INVALID\<rparr>);
          d2 = d1(lastq := (d1 lastq)\<lparr>qtd_token := qtd_token (d1 lastq) OR QTD_IOC\<rparr>);
          e1 = e\<lparr>qtds := d2\<rparr>;
          e2 = (case qh_lastQtd (qhs e1 qh) of
                  None \<Rightarrow>
                    e1\<lparr>qhs := (qhs e1)(qh := (qhs e1 qh)\<lparr>qh_nextQtd := qtd_paddr (qtds e1 first)\<rparr>)\<rparr>
                | Some l \<Rightarrow>
                    e1\<lparr>qtds := (qtds e1)(l := (qtds e1 l)\<lparr>qtd_next := qtd_paddr (qtds e1 first)\<rparr>)\<rparr>)
      in e2\<lparr>qhs := (qhs e2)(qh := (qhs e2 qh)\<lparr>qh_lastQtd := Some lastq\<rparr>)\<rparr>)"

text \<open>
  Modelled from the spec: the macros \<open>QH_DEVADDR\<close> and \<open>QH_PACKLEN\<close> of ehci.h
  read the device address (bits 0-6) and the maximum packet length (bits 16-26) of
  \<open>info[0]\<close>, the fields the code rewrites with the masks \<open>0x7f\<close> and
  \<open>0x7ff << 16\<close>.
\<close>

definition QH_DEVADDR :: "u32 \<Rightarrow> u32" where
  "QH_DEVADDR info = info AND 0x7f"

definition QH_PACKLEN :: "u32 \<Rightarrow> u32" where
  "QH_PACKLEN info = drop_bit 16 info AND 0x7ff"

text \<open>
  The first part of \<open>ehci_transferEnqueue\<close>: the QH of the pipe. Without one, a QH
  is allocated, configured, stored in \<open>pipe->hcdpriv\<close> and linked into the schedule
  the type of the transfer selects; otherwise the address and packet length of the
  existing one are refreshed. The result is the QH (\<open>NULL\<close> when the allocation
  failed), the state and the pipe.
\<close>

definition transferEnqueue_qh ::
  "platform \<Rightarrow> ehci \<Rightarrow> usb_transfer \<Rightarrow> usb_pipe \<Rightarrow> (addr option \<times> ehci \<times> usb_pipe) option" where
  "transferEnqueue_qh pf e t pipe =
     (case pipe_hcdpriv pipe of
        None \<Rightarrow>
          (case ehci_qhAlloc e of
             (None, e1) \<Rightarrow> Some (None, e1, pipe)
           | (Some qh, e1) \<Rightarrow>
               (case ehci_qhConf (qhs e1 qh) pipe of
                  None \<Rightarrow> None
                | Some h \<Rightarrow>
                    (case (if t_type t = usb_transfer_bulk \<or> t_type t = usb_transfer_control
                           then ehci_qhLinkAsync pf (e1\<lparr>qhs := (qhs e1)(qh := h)\<rparr>) qh
                           else ehci_qhLinkPeriodic pf (e1\<lparr>qhs := (qhs e1)(qh := h)\<rparr>) qh) of
                       None \<Rightarrow> None
                     | Some e2 \<Rightarrow> Some (Some qh, e2, pipe\<lparr>pipe_hcdpriv := Some qh\<rparr>))))
      | Some qh \<Rightarrow>
          (let h = qhs e qh;
               h1 = (if QH_DEVADDR (qh_info0 h) \<noteq> dev_address pipe
                     then h\<lparr>qh_info0 := (qh_info0 h AND NOT 0x7f) OR dev_address pipe\<rparr> else h);
               h2 = (if QH_PACKLEN (qh_info0 h1) \<noteq> maxPacketLen pipe
                     then h1\<lparr>qh_info0 := (qh_info0 h1 AND NOT (push_bit 16 0x7ff))
                                             OR push_bit 16 (maxPacketLen pipe)\<rparr>
                     else h1)
           in Some (Some qh, e\<lparr>qhs := (qhs e)(qh := h2)\<rparr>, pipe)))"

text \<open>
  The failure block that follows each \<open>ehci_qtdAdd\<close>: the qTDs built so far go to
  \<open>ehci_qtdsPut\<close>, \<open>t->hcdpriv\<close> is cleared and the code is \<open>-ENOMEM\<close>.
\<close>

definition transferEnqueue_nomem ::
  "platform \<Rightarrow> hcd \<Rightarrow> ehci \<Rightarrow> addr list \<Rightarrow> usb_transfer \<Rightarrow> usb_pipe
    \<Rightarrow> (int \<times> hcd \<times> usb_transfer \<times> usb_pipe) option" where
  "transferEnqueue_nomem pf h e qtdl t pipe =
     (case ehci_qtdsPut pf e qtdl of
        None \<Rightarrow> None
      | Some e' \<Rightarrow> Some (- ENOMEM, h\<lparr>priv := e'\<rparr>, t\<lparr>t_hcdpriv := []\<rparr>, pipe))"

text \<open>
  The three stages of \<open>ehci_transferEnqueue\<close>. Each takes the list \<open>qtds\<close> built
  so far and returns the code of \<open>ehci_qtdAdd\<close> (0 when the stage does not apply),
  the list and the state.
\<close>

definition transferEnqueue_setup ::
  "platform \<Rightarrow> ehci \<Rightarrow> usb_transfer \<Rightarrow> usb_pipe \<Rightarrow> (int \<times> addr list \<times> ehci) option" where
  "transferEnqueue_setup pf e t pipe =
     (if t_type t = usb_transfer_control
      then ehci_qtdAdd pf e [] setup_token (maxPacketLen pipe) (t_setup t)
             SETUP_PACKET_SIZE SETUP_PACKET_SIZE False
      else Some (0, [], e))"

definition transferEnqueue_data ::
  "platform \<Rightarrow> ehci \<Rightarrow> addr list \<Rightarrow> ehci_token \<Rightarrow> usb_transfer \<Rightarrow> usb_pipe
    \<Rightarrow> (int \<times> addr list \<times> ehci) option" where
  "transferEnqueue_data pf e qtdl token t pipe =
     (if (t_type t = usb_transfer_control \<and> t_size t > 0) \<or> t_type t = usb_transfer_bulk
          \<or> t_type t = usb_transfer_interrupt
      then ehci_qtdAdd pf e qtdl token (maxPacketLen pipe) (t_buffer t) (t_size t) (t_size t) True
      else Some (0, qtdl, e))"

definition transferEnqueue_status ::
  "platform \<Rightarrow> ehci \<Rightarrow> addr list \<Rightarrow> ehci_token \<Rightarrow> usb_transfer \<Rightarrow> usb_pipe
    \<Rightarrow> (int \<times> addr list \<times> ehci) option" where
  "transferEnqueue_status pf e qtdl token t pipe =
     (if t_type t = usb_transfer_control
      then ehci_qtdAdd pf e qtdl (if token = in_token then out_token else in_token)
             (maxPacketLen pipe) 0 0 0 True
      else Some (0, qtdl, e))"

text \<open>
  \<open>ehci_transferEnqueue\<close>: the result is the return code, the controller, the
  transfer and the pipe.
\<close>

definition ehci_transferEnqueue ::
  "platform \<Rightarrow> hcd \<Rightarrow> usb_transfer \<Rightarrow> usb_pipe
    \<Rightarrow> (int \<times> hcd \<times> usb_transfer \<times> usb_pipe) option" where
  "ehci_transferEnqueue pf h t pipe0 =
     (let token = (if t_direction t = usb_dir_in then in_token else out_token)
      in if dev_isRoothub pipe0 then Some (ehci_roothubReq pf h t pipe0)
         else
           case transferEnqueue_qh pf (priv h) t pipe0 of
             None \<Rightarrow> None
           | Some (None, e0, pipe) \<Rightarrow> Some (- ENOMEM, h\<lparr>priv := e0\<rparr>, t, pipe)
           | Some (Some qh, e0, pipe) \<Rightarrow>
               (case transferEnqueue_setup pf e0 t pipe of
                  None \<Rightarrow> None
                | Some (r1, l1, e1) \<Rightarrow>
                    if r1 < 0 then transferEnqueue_nomem pf h e1 l1 t pipe
                    else
                      (case transferEnqueue_data pf e1 l1 token t pipe of
                         None \<Rightarrow> None
                       | Some (r2, l2, e2) \<Rightarrow>
                           if r2 < 0 then transferEnqueue_nomem pf h e2 l2 t pipe
                           else
                             (case transferEnqueue_status pf e2 l2 token t pipe of
                                None \<Rightarrow> None
                              | Some (r3, l3, e3) \<Rightarrow>
                                  if r3 < 0 then transferEnqueue_nomem pf h e3 l3 t pipe
                                  else if l3 = [] then Some (- 1, h\<lparr>priv := e3\<rparr>, t, pipe)
                                  else
                                    let t' = t\<lparr>t_hcdpriv := l3\<rparr>;
                                        e4 = transferEnqueue_link e3 qh l3 (hd l3)
                                    in Some (0,
                                         \<lparr>priv = ehci_enqueue e4 qh (hd l3) (last l3),
                                          transfers = transfers h @ [t']\<rparr>,
                                         t', pipe)))))"

section \<open>Completion reaper\<close>

definition ehci_continue :: "ehci \<Rightarrow> addr \<Rightarrow> addr \<Rightarrow> ehci" where
  "ehci_continue e qh lastq =
     (let h = qhs e qh;
          l = qtds e lastq;
          h1 = (if qh_lastQtd h = Some lastq
                then h\<lparr>qh_lastQtd := None, qh_nextQtd := QTD_PTR_INVALID\<rparr> else h);
          h2 = (if qh_nextQtd h1 = QTD_PTR_INVALID \<and> qh_current h1 = qtd_paddr l
                then h1\<lparr>qh_nextQtd := qtd_next l\<rparr> else h1);
          h3 = (if qh_token h2 AND QTD_ERRMASK \<noteq> 0
                then h2\<lparr>qh_nextQtd := qtd_next l, qh_token := qh_token h2 AND NOT 0x7e\<rparr>
                else h2)
      in e\<lparr>qhs := (qhs e)(qh := h3)\<rparr>)"

text \<open>
  The body of the loop of \<open>ehci_transUpdate\<close> for one in-flight transfer \<open>t\<close>:
  when \<open>ehci_qtdsCheck\<close> says finished, the QH is re-homed, the ring goes back to
  the pool, the transfer leaves the in-flight list, its \<open>hcdpriv\<close> is cleared and
  \<open>usb_transferFinished(t, status)\<close> is called. The result is the controller and,
  when the callback was called, its two arguments.
\<close>

definition transUpdate_body ::
  "platform \<Rightarrow> hcd \<Rightarrow> usb_transfer \<Rightarrow> (hcd \<times> (usb_transfer \<times> int) option) option" where
  "transUpdate_body pf h t =
     (case ehci_qtdsCheck (map (qtds (priv h)) (t_hcdpriv t)) (t_size t) of
        None \<Rightarrow> None
      | Some (finished, status) \<Rightarrow>
          if finished \<noteq> 0 then
            (case qtd_qh (qtds (priv h) (hd (t_hcdpriv t))) of
               None \<Rightarrow> None
             | Some qh \<Rightarrow>
                 (case ehci_qtdsPut pf (ehci_continue (priv h) qh (last (t_hcdpriv t)))
                         (t_hcdpriv t) of
                    None \<Rightarrow> None
                  | Some e' \<Rightarrow>
                      Some (\<lparr>priv = e', transfers = remove1 t (transfers h)\<rparr>,
                            Some (t\<lparr>t_hcdpriv := []\<rparr>, status))))
          else Some (h, None))"

section \<open>Example descriptors and states\<close>

text \<open>
  A qTD as the controller leaves it after a babble: Babble and Halted set, Active
  cleared, no byte transferred of the 18 asked for.
\<close>

definition babble_qtd :: ehci_qtd where
  "babble_qtd =
     \<lparr>qtd_next = 1, qtd_altnext = 1, qtd_token = 0x00128d50, qtd_buf = [0x2000, 0, 0, 0, 0],
      qtd_buf_hi = [0, 0, 0, 0, 0], qtd_paddr = 0x1000, qtd_qh = Some 0\<rparr>"

text \<open>A QH as \<open>ehci_qhAlloc\<close> leaves it.\<close>

definition reset_qh :: ehci_qh where
  "reset_qh =
     \<lparr>qh_info0 = 0, qh_info1 = 0, qh_token = 0, qh_horizontal = 1, qh_current = 1,
      qh_nextQtd = 1, qh_altnextQtd = 1, qh_buf = [0, 0, 0, 0, 0], qh_buf_hi = [0, 0, 0, 0, 0],
      qh_next = None, qh_prev = None, qh_period = 0, qh_phase = 0, qh_uframe = 0,
      qh_lastQtd = None\<rparr>"

text \<open>Interrupt pipes of a device at address 2, endpoint 1, with 8-byte packets.\<close>

definition intr_pipe :: "usb_speed \<Rightarrow> u32 \<Rightarrow> usb_pipe" where
  "intr_pipe speed bInterval =
     \<lparr>dev_address = 2, dev_speed = speed, dev_isRoothub = False, pipe_num = 1,
      pipe_type = usb_transfer_interrupt, maxPacketLen = 8, interval = bInterval,
      pipe_hcdpriv = None\<rparr>"

section \<open>The byte count of a qTD in the words of the specification\<close>

text \<open>
  Following the spec: the first page takes \<open>min(remaining, page0_tail)\<close> and each of
  the \<open>n\<close> subsequent pages \<open>min(remaining, 4096)\<close> of what then remains.
  \<open>spec_pages n r b\<close> is the count after \<open>n\<close> more pages when \<open>b\<close> of the \<open>r\<close>
  bytes are consumed.
\<close>

fun spec_pages :: "nat \<Rightarrow> nat \<Rightarrow> nat \<Rightarrow> nat" where
  "spec_pages 0 r b = b"
| "spec_pages (Suc n) r b = spec_pages n r (b + min (r - b) 4096)"

text \<open>
  Following the spec: if the fifth buffer does not exhaust \<open>remaining\<close>, the byte
  count is truncated downward to a whole multiple of maxPacketSize. \<open>off\<close> is the
  offset of the buffer in its first page.
\<close>

definition spec_qtd_bytes :: "nat \<Rightarrow> nat \<Rightarrow> nat \<Rightarrow> nat" where
  "spec_qtd_bytes off maxpacksz remaining =
     (let total = spec_pages 4 remaining (min remaining (4096 - off))
      in if total < remaining then (total div maxpacksz) * maxpacksz else total)"

text \<open>
  A platform for the examples: identity address translation, descriptors 32 bytes
  apart, a frame list of 128 slots, pools of at most 20 qTDs and 10 QHs.
\<close>

definition pf0 :: platform where
  "pf0 =
     \<lparr>va2pa = (\<lambda>a. a),
      QTD_PTR = (\<lambda>a. push_bit 5 (of_nat a)),
      QH_PTR = (\<lambda>q. case q of None \<Rightarrow> 2 | Some a \<Rightarrow> push_bit 5 (of_nat a) OR 2),
      EHCI_PERIODIC_SIZE = 128,
      EHCI_MAX_QTD_POOL = 20,
      EHCI_MAX_QH_POOL = 10,
      ehci_roothubReq = (\<lambda>h t p. (0, h, t, p))\<rparr>"

definition blank_qtd :: ehci_qtd where
  "blank_qtd =
     \<lparr>qtd_next = 0, qtd_altnext = 0, qtd_token = 0, qtd_buf = [0, 0, 0, 0, 0],
      qtd_buf_hi = [0, 0, 0, 0, 0], qtd_paddr = 0, qtd_qh = None\<rparr>"

text \<open>
  The controller as \<open>ehci_init\<close> leaves it: empty pools, the dummy head (at address
  0) alone on the asynchronous ring, every periodic slot invalid. \<open>oks\<close> are the
  outcomes of the coming allocations.
\<close>

definition ehci0 :: "bool list \<Rightarrow> ehci" where
  "ehci0 oks =
     \<lparr>qtds = (\<lambda>a. blank_qtd),
      qhs = (\<lambda>a. reset_qh)
              (0 := reset_qh\<lparr>qh_info0 := 0x8000, qh_horizontal := 2,
                               qh_next := Some 0, qh_prev := Some 0\<rparr>),
      qtdPool = [], nqtds = 0, qhPool = [], nqhs = 0,
      asyncList = Some 0,
      periodicNodes = replicate 128 None,
      periodicList = replicate 128 1,
      destroyed = [], mem_next = 1, mem_ok = oks\<rparr>"

section \<open>Sequences of pool operations\<close>

text \<open>The operations on the two descriptor pools, and a run of them in order.\<close>

datatype pool_op = QtdGet | QtdsPut "addr list" | QhGet | QhPut addr

fun pool_step :: "platform \<Rightarrow> ehci \<Rightarrow> pool_op \<Rightarrow> ehci option" where
  "pool_step pf e QtdGet = Some (snd (ehci_qtdGet e))"
| "pool_step pf e (QtdsPut head) = ehci_qtdsPut pf e head"
| "pool_step pf e QhGet = Some (snd (ehci_qhGet e))"
| "pool_step pf e (QhPut qh) = ehci_qhPut pf e qh"

fun pool_run :: "platform \<Rightarrow> ehci \<Rightarrow> pool_op list \<Rightarrow> ehci option" where
  "pool_run pf e [] = Some e"
| "pool_run pf e (x # xs) =
     (case pool_step pf e x of None \<Rightarrow> None | Some e' \<Rightarrow> pool_run pf e' xs)"

text \<open>
  The state of the pools the driver keeps: each counter is the length of its pool
  and within its cap, and the caps are positive. \<open>ehci_init\<close> starts with empty
  pools and counters at zero.
\<close>

definition pool_inv :: "platform \<Rightarrow> ehci \<Rightarrow> bool" where
  "pool_inv pf e \<longleftrightarrow>
     nqtds e = int (length (qtdPool e)) \<and> nqtds e \<le> EHCI_MAX_QTD_POOL pf \<and>
     nqhs e = int (length (qhPool e)) \<and> nqhs e \<le> EHCI_MAX_QH_POOL pf \<and>
     0 < EHCI_MAX_QTD_POOL pf \<and> 0 < EHCI_MAX_QH_POOL pf"

text \<open>A controller with one qTD (address 1) and one QH (address 2) in the pools.\<close>

definition ehci_pooled :: ehci where
  "ehci_pooled =
     (ehci0 [True])\<lparr>qhs := (qhs (ehci0 [True]))(2 := reset_qh\<lparr>qh_next := Some 2, qh_prev := Some 2\<rparr>),
                     qtdPool := [1], nqtds := 1, qhPool := [2], nqhs := 1, mem_next := 3\<rparr>"

text \<open>
  A controller with both pools at their caps of 20 qTDs and 10 QHs; the QHs 21 to
  30 are linked into the ring of their pool.
\<close>

definition ehci_full :: ehci where
  "ehci_full =
     (ehci0 [])\<lparr>qhs := (\<lambda>a. if 21 \<le> a \<and> a \<le> 30
                             then reset_qh\<lparr>qh_next := Some (if a = 30 then 21 else a + 1),
                                            qh_prev := Some (if a = 21 then 30 else a - 1)\<rparr>
                             else qhs (ehci0 []) a),
                 qtdPool := [1, 2, 3, 4, 5, 6, 7, 8, 9, 10, 11, 12, 13, 14, 15, 16, 17, 18, 19, 20],
                 nqtds := 20,
                 qhPool := [21, 22, 23, 24, 25, 26, 27, 28, 29, 30], nqhs := 10,
                 mem_next := 31\<rparr>"

text \<open>
  A successful \<open>ehci_qtdAlloc\<close> followed by the release of the qTD it returned
  (\<open>None\<close> also when the allocation fails).
\<close>

definition qtd_alloc_release ::
  "platform \<Rightarrow> ehci \<Rightarrow> ehci_token \<Rightarrow> u32 \<Rightarrow> u32 \<Rightarrow> u32 \<Rightarrow> bool \<Rightarrow> ehci option" where
  "qtd_alloc_release pf e pid maxpacksz data sz datax =
     (case ehci_qtdAlloc pf e pid maxpacksz data sz datax of
        Some (Some q, sz', e1) \<Rightarrow> ehci_qtdsPut pf e1 [q]
      | _ \<Rightarrow> None)"

section \<open>Chains of the periodic schedule\<close>

text \<open>
  \<open>qh_chain qs p as\<close>: following \<open>next\<close> from the pointer \<open>p\<close> visits the QHs
  \<open>as\<close> in this order and then reaches \<open>NULL\<close>.
\<close>

fun qh_chain :: "(addr \<Rightarrow> ehci_qh) \<Rightarrow> addr option \<Rightarrow> addr list \<Rightarrow> bool" where
  "qh_chain qs p [] = (p = None)"
| "qh_chain qs p (a # as) = (p = Some a \<and> qh_chain qs (qh_next (qs a)) as)"

text \<open>The S-mask of a QH, and the number of microframe bits set in it.\<close>

definition qh_smask :: "ehci_qh \<Rightarrow> u32" where
  "qh_smask h = qh_info1 h AND QH_SMASK"

definition smask_bits :: "ehci_qh \<Rightarrow> nat" where
  "smask_bits h = length (filter (bit (qh_smask h)) [0, 1, 2, 3, 4, 5, 6, 7])"

text \<open>
  The QH that configuration and periodic linking give the first high-speed
  interrupt pipe of a controller fresh from \<open>ehci_init\<close>, for a given \<open>bInterval\<close>.
\<close>

definition hs_intr_qh :: "u32 \<Rightarrow> ehci_qh option" where
  "hs_intr_qh bInterval =
     (case ehci_qhConf reset_qh (intr_pipe usb_high_speed bInterval) of
        None \<Rightarrow> None
      | Some h \<Rightarrow>
          (case ehci_qhLinkPeriodic pf0 ((ehci0 [])\<lparr>qhs := (qhs (ehci0 []))(1 := h)\<rparr>) 1 of
             None \<Rightarrow> None
           | Some e \<Rightarrow> Some (qhs e 1)))"

section \<open>Stages and outcome of a submission\<close>

text \<open>
  The three stages of \<open>ehci_transferEnqueue\<close> in sequence, up to the first one that
  fails: the code of the failing \<open>ehci_qtdAdd\<close> (0 when none fails), the qTDs built
  so far and the state.
\<close>

definition transferEnqueue_stages ::
  "platform \<Rightarrow> ehci \<Rightarrow> usb_transfer \<Rightarrow> usb_pipe \<Rightarrow> (int \<times> addr list \<times> ehci) option" where
  "transferEnqueue_stages pf e0 t pipe =
     (let token = (if t_direction t = usb_dir_in then in_token else out_token)
      in case transferEnqueue_setup pf e0 t pipe of
           None \<Rightarrow> None
         | Some (r1, l1, e1) \<Rightarrow>
             if r1 < 0 then Some (r1, l1, e1)
             else
               (case transferEnqueue_data pf e1 l1 token t pipe of
                  None \<Rightarrow> None
                | Some (r2, l2, e2) \<Rightarrow>
                    if r2 < 0 then Some (r2, l2, e2)
                    else transferEnqueue_status pf e2 l2 token t pipe))"

text \<open>
  What a submission leaves on the side of the QHs: the store of the QHs, their
  pool and the two schedules.
\<close>

definition same_qh_side :: "ehci \<Rightarrow> ehci \<Rightarrow> bool" where
  "same_qh_side e e' \<longleftrightarrow>
     qhs e' = qhs e \<and> qhPool e' = qhPool e \<and> nqhs e' = nqhs e \<and> asyncList e' = asyncList e \<and>
     periodicNodes e' = periodicNodes e \<and> periodicList e' = periodicList e"

text \<open>
  The outcome of a submission in short: the return code, the ring of the transfer,
  the number of in-flight transfers, the QH of the pipe and the last qTD queued on
  that QH.
\<close>

definition enqueue_outcome ::
  "(int \<times> hcd \<times> usb_transfer \<times> usb_pipe) option
    \<Rightarrow> (int \<times> addr list \<times> nat \<times> addr option \<times> addr option) option" where
  "enqueue_outcome r =
     (case r of
        None \<Rightarrow> None
      | Some (c, h, t, p) \<Rightarrow>
          Some (c, t_hcdpriv t, length (transfers h), pipe_hcdpriv p,
                (case pipe_hcdpriv p of None \<Rightarrow> None | Some q \<Rightarrow> qh_lastQtd (qhs (priv h) q))))"

text \<open>
  A high-speed bulk pipe without a QH yet, a bulk OUT transfer of \<open>n\<close> bytes, and a
  controller fresh from \<open>ehci_init\<close> with no transfer in flight.
\<close>

definition bulk_pipe :: usb_pipe where
  "bulk_pipe =
     \<lparr>dev_address = 2, dev_speed = usb_high_speed, dev_isRoothub = False, pipe_num = 1,
      pipe_type = usb_transfer_bulk, maxPacketLen = 512, interval = 0, pipe_hcdpriv = None\<rparr>"

definition bulk_out :: "u32 \<Rightarrow> usb_transfer" where
  "bulk_out n =
     \<lparr>t_type = usb_transfer_bulk, t_direction = usb_dir_out, t_setup = 0,
      t_buffer = 0x20000000, t_size = n, t_hcdpriv = []\<rparr>"

definition hcd0 :: "bool list \<Rightarrow> hcd" where
  "hcd0 oks = \<lparr>priv = ehci0 oks, transfers = []\<rparr>"

text \<open>What a call leaves on the side of the qTDs: their store, pool and counter.\<close>

definition same_qtd_side :: "ehci \<Rightarrow> ehci \<Rightarrow> bool" where
  "same_qtd_side e e' \<longleftrightarrow> qtds e' = qtds e \<and> qtdPool e' = qtdPool e \<and> nqtds e' = nqtds e"

text \<open>
  What linking a QH leaves alone: everything but the store of the QHs and the two
  periodic arrays.
\<close>

definition only_sched :: "ehci \<Rightarrow> ehci \<Rightarrow> bool" where
  "only_sched e e' \<longleftrightarrow>
     qtds e' = qtds e \<and> qtdPool e' = qtdPool e \<and> nqtds e' = nqtds e \<and> qhPool e' = qhPool e \<and>
     nqhs e' = nqhs e \<and> destroyed e' = destroyed e \<and> mem_next e' = mem_next e \<and>
     mem_ok e' = mem_ok e \<and> asyncList e' = asyncList e"

text \<open>
  The control pipe of the same device and a control IN transfer of 18 bytes (a
  GET_DESCRIPTOR), its setup packet at \<open>0x20000100\<close>.
\<close>

definition ctrl_pipe :: usb_pipe where
  "ctrl_pipe =
     \<lparr>dev_address = 2, dev_speed = usb_high_speed, dev_isRoothub = False, pipe_num = 0,
      pipe_type = usb_transfer_control, maxPacketLen = 64, interval = 0, pipe_hcdpriv = None\<rparr>"

definition ctrl_in :: usb_transfer where
  "ctrl_in =
     \<lparr>t_type = usb_transfer_control, t_direction = usb_dir_in, t_setup = 0x20000100,
      t_buffer = 0x20000200, t_size = 18, t_hcdpriv = []\<rparr>"

text \<open>An isochronous transfer: its type is none of control, bulk and interrupt.\<close>

definition isoc_out :: usb_transfer where
  "isoc_out =
     \<lparr>t_type = usb_transfer_isochronous, t_direction = usb_dir_out, t_setup = 0,
      t_buffer = 0x20000000, t_size = 64, t_hcdpriv = []\<rparr>"

section \<open>A transfer halted by a babble\<close>

text \<open>
  A bulk IN transfer of 18 bytes in flight on QH 1, which is alone behind the dummy
  head on the asynchronous ring. The ring of the transfer is the one qTD 2, which
  the controller halted with a babble before any byte arrived; the overlay of the
  QH holds the token of the halted qTD.
\<close>

definition babble_transfer :: usb_transfer where
  "babble_transfer =
     \<lparr>t_type = usb_transfer_bulk, t_direction = usb_dir_in, t_setup = 0,
      t_buffer = 0x2000, t_size = 18, t_hcdpriv = [2]\<rparr>"

definition babble_hcd :: hcd where
  "babble_hcd =
     \<lparr>priv = (ehci0 [])
         \<lparr>qtds := (qtds (ehci0 []))(2 := babble_qtd\<lparr>qtd_paddr := 64, qtd_qh := Some 1\<rparr>),
          qhs := (qhs (ehci0 []))
                   (0 := (qhs (ehci0 []) 0)\<lparr>qh_horizontal := 34, qh_next := Some 1,
                                              qh_prev := Some 1\<rparr>,
                    1 := reset_qh\<lparr>qh_info0 := 0x32002102, qh_token := 0x00128d50,
                                   qh_horizontal := 2, qh_current := 64, qh_next := Some 0,
                                   qh_prev := Some 0, qh_lastQtd := Some 2\<rparr>),
          mem_next := 3\<rparr>,
      transfers = [babble_transfer]\<rparr>"

section \<open>Link followed by unlink\<close>

text \<open>
  The pointer word the unlink writes for a successor \<open>p\<close>: \<open>QH_PTR(p)\<close>, or
  \<open>QH_PTR_INVALID\<close> when there is none.
\<close>

definition hw_ptr :: "platform \<Rightarrow> addr option \<Rightarrow> u32" where
  "hw_ptr pf p = (if p \<noteq> None then QH_PTR pf p else QH_PTR_INVALID)"

text \<open>
  A controller fresh from \<open>ehci_init\<close> on which QH 1 has been allocated and
  configured for a high-speed interrupt pipe with \<open>bInterval\<close> 4 (a period of one
  frame), and is not linked yet.
\<close>

definition intr_ready :: ehci where
  "intr_ready =
     (ehci0 [])\<lparr>qhs := (qhs (ehci0 []))(1 := reset_qh\<lparr>qh_info0 := 0x30082102, qh_period := 1\<rparr>),
                 mem_next := 2\<rparr>"

text \<open>
  A periodic schedule as three full-speed interrupt QHs of period 4 leave it that
  were linked one after the other (band allocation gave them the phases 0, 1 and
  2) and of which the first was unlinked again: QH 2 is the head of the slots 1, 5,
  9, ..., QH 3 of the slots 2, 6, 10, ..., and the other slots are empty. The
  record of the unlinked QH, 1, has been allocated anew and configured for a
  full-speed interrupt pipe of period 2.
\<close>

definition staggered_sched :: ehci where
  "staggered_sched =
     (ehci0 [])
       \<lparr>qhs := (qhs (ehci0 []))
                 (1 := reset_qh\<lparr>qh_info0 := 0x30080102, qh_period := 2\<rparr>,
                  2 := reset_qh\<lparr>qh_info0 := 0x30080102, qh_info1 := 0xffff, qh_period := 4,
                                 qh_phase := 1, qh_uframe := 0xff\<rparr>,
                  3 := reset_qh\<lparr>qh_info0 := 0x30080102, qh_info1 := 0xffff, qh_period := 4,
                                 qh_phase := 2, qh_uframe := 0xff\<rparr>),
        periodicNodes := map (\<lambda>i. if i mod 4 = 1 then Some 2 else if i mod 4 = 2 then Some 3
                                   else None) [0..<128],
        periodicList := map (\<lambda>i. if i mod 4 = 1 then 66 else if i mod 4 = 2 then 98 else 1)
                          [0..<128],
        mem_next := 4\<rparr>"

text \<open>
  The owner and the frame list entry of slot \<open>i\<close> after \<open>ehci_qhLinkPeriodic\<close>
  followed by \<open>ehci_qhUnlinkPeriodic\<close> of the same QH.
\<close>

definition slot_after_link_unlink ::
  "platform \<Rightarrow> ehci \<Rightarrow> addr \<Rightarrow> nat \<Rightarrow> (addr option \<times> u32) option" where
  "slot_after_link_unlink pf e qh i =
     (case ehci_qhLinkPeriodic pf e qh of
        None \<Rightarrow> None
      | Some e1 \<Rightarrow>
          (case ehci_qhUnlinkPeriodic pf e1 qh of
             None \<Rightarrow> None
           | Some e2 \<Rightarrow> Some (periodicNodes e2 ! i, periodicList e2 ! i)))"

section \<open>Properties of the completion check\<close>

lemma qtdsCheck_errors_count:
  "qtdsCheck_errors ring n = n + int (error_count ring)"
  by (induction ring arbitrary: n) (simp_all add: error_count_def QTD_ERRMASK_def)

lemma error_count_pos:
  "\<exists>q \<in> set ring. qtd_token q AND QTD_ERRMASK \<noteq> 0 \<Longrightarrow> 0 < error_count ring"
  by (auto simp: error_count_def filter_empty_conv)

text \<open>
  A ring with a qTD that has an XACT, BABBLE, BUFERR or HALTED bit is classified
  as finished. While the last qTD of the ring is still active and not halted, the
  status is minus the number of such qTDs: the path on which the error status
  set by the first test survives.
\<close>

lemma qtdsCheck_error_last_active:
  assumes "\<exists>q \<in> set ring. qtd_token q AND QTD_ERRMASK \<noteq> 0"
  shows "\<exists>status. ehci_qtdsCheck ring sz = Some (1, status) \<and>
           (qtd_token (last ring) AND QTD_ACTIVE \<noteq> 0 \<and> qtd_token (last ring) AND QTD_HALTED = 0
              \<longrightarrow> status = - int (error_count ring) \<and> status < 0)"
proof -
  from assms have ne: "ring \<noteq> []" by auto
  from assms have pos: "0 < error_count ring" by (rule error_count_pos)
  show ?thesis using ne pos
    by (simp add: ehci_qtdsCheck_def qtdsCheck_errors_count Let_def)
qed

text \<open>
  A ring of two qTDs, the first with a transaction error, the last still active:
  the status is -1.
\<close>

lemma qtdsCheck_error_last_active_example:
  "ehci_qtdsCheck [babble_qtd\<lparr>qtd_token := 0x00128d48\<rparr>, babble_qtd\<lparr>qtd_token := 0x80008d80\<rparr>] 18
     = Some (1, -1)"
  by (simp add: ehci_qtdsCheck_def QTD_XACT_def QTD_BABBLE_def QTD_BUFERR_def QTD_HALTED_def
      QTD_ACTIVE_def)

text \<open>
  C1. The code does not do what the claim says. The ring of \<open>babble_transfer\<close> has
  one qTD with BABBLE and HALTED set, so \<open>ehci_qtdsCheck\<close> counts one error and
  sets the status to -1; the halted qTD also passes the test under the comment
  "Finished no error", which overwrites the status with \<open>size - QTD_LEN\<close>, here
  18 - 18 = 0. The transfer is finished, and \<open>ehci_transUpdate\<close> hands the status 0
  to \<open>usb_transferFinished\<close>: not a negative status.
\<close>

theorem transUpdate_babble_status:
  "error_count (map (qtds (priv babble_hcd)) (t_hcdpriv babble_transfer)) = 1 \<and>
   ehci_qtdsCheck (map (qtds (priv babble_hcd)) (t_hcdpriv babble_transfer))
     (t_size babble_transfer) = Some (1, 0) \<and>
   map_option snd (transUpdate_body pf0 babble_hcd babble_transfer)
     = Some (Some (babble_transfer\<lparr>t_hcdpriv := []\<rparr>, 0))"
proof -
  have c: "ehci_qtdsCheck (map (qtds (priv babble_hcd)) (t_hcdpriv babble_transfer))
             (t_size babble_transfer) = Some (1, 0)"
    by (simp add: babble_hcd_def babble_transfer_def babble_qtd_def ehci_qtdsCheck_def
        QTD_XACT_def QTD_BABBLE_def QTD_BUFERR_def QTD_HALTED_def QTD_ACTIVE_def QTD_LEN_def)
  have n: "error_count (map (qtds (priv babble_hcd)) (t_hcdpriv babble_transfer)) = 1"
    by (simp add: error_count_def babble_hcd_def babble_transfer_def babble_qtd_def
        QTD_ERRMASK_def QTD_XACT_def QTD_BABBLE_def QTD_BUFERR_def QTD_HALTED_def)
  have q: "qtd_qh (qtds (priv babble_hcd) (hd (t_hcdpriv babble_transfer))) = Some 1"
    by (simp add: babble_hcd_def babble_transfer_def)
  have p: "\<exists>e'. ehci_qtdsPut pf0
              (ehci_continue (priv babble_hcd) 1 (last (t_hcdpriv babble_transfer)))
              (t_hcdpriv babble_transfer) = Some e'"
    by (simp add: babble_transfer_def qtdsPut_one_def ehci_continue_def Let_def babble_hcd_def
        ehci0_def pf0_def)
  then obtain e' where "ehci_qtdsPut pf0
              (ehci_continue (priv babble_hcd) 1 (last (t_hcdpriv babble_transfer)))
              (t_hcdpriv babble_transfer) = Some e'" by blast
  with c q have "map_option snd (transUpdate_body pf0 babble_hcd babble_transfer)
     = Some (Some (babble_transfer\<lparr>t_hcdpriv := []\<rparr>, 0))"
    by (simp add: transUpdate_body_def)
  with n c show ?thesis by simp
qed

section \<open>Properties of the QH configuration\<close>

lemma unat_pow2_u32: "k < 32 \<Longrightarrow> unat ((2::u32) ^ k) = 2 ^ k"
proof -
  assume k: "k < 32"
  have "(2::u32) ^ k = word_of_nat (2 ^ k)" by simp
  then have "unat ((2::u32) ^ k) = (2 ^ k) mod 2 ^ 32" by (simp only: unat_of_nat) simp
  moreover have "(2::nat) ^ k < 2 ^ 32" using k by (intro power_strict_increasing) simp_all
  ultimately show ?thesis by (simp only: mod_less)
qed

text \<open>
  The doubling loop started at \<open>2^k\<close> below the interval stops at a power of two
  \<open>2^j\<close> with \<open>2^j < interval \<le> 2^(j+1)\<close>; induction on the distance of \<open>k\<close> to 31.
\<close>

lemma qhConf_period_pow2:
  assumes "n = 31 - k" "k \<le> 31" "k = 0 \<or> 2 ^ k < unat iv" "unat iv \<le> 2 ^ 31"
  shows "\<exists>j. qhConf_period (2 ^ k) iv = Some (2 ^ j) \<and> k \<le> j \<and> j < 32 \<and>
             (j = 0 \<or> 2 ^ j < unat iv) \<and> unat iv \<le> 2 ^ (j + 1)"
  using assms
proof (induction n arbitrary: k)
  case 0
  then have k: "k = 31" by simp
  with 0 have False by auto
  then show ?case ..
next
  case (Suc n)
  then have k: "k < 31" by simp
  then have u: "unat ((2::u32) ^ k * 2) = 2 ^ (k + 1)"
    using unat_pow2_u32 [of "k + 1"] by (simp add: mult.commute)
  show ?case
  proof (cases "(2::u32) ^ k * 2 < iv")
    case True
    then have lt: "2 ^ (k + 1) < unat iv" using u by (simp add: word_less_nat_alt)
    have "\<exists>j. qhConf_period (2 ^ (k + 1)) iv = Some (2 ^ j) \<and> k + 1 \<le> j \<and> j < 32 \<and>
             (j = 0 \<or> 2 ^ j < unat iv) \<and> unat iv \<le> 2 ^ (j + 1)"
    proof (rule Suc.IH)
      show "n = 31 - (k + 1)" using Suc.prems by simp
      show "k + 1 \<le> 31" using k by simp
      show "k + 1 = 0 \<or> 2 ^ (k + 1) < unat iv" using lt by simp
      show "unat iv \<le> 2 ^ 31" by fact
    qed
    then obtain j where j: "qhConf_period (2 ^ (k + 1)) iv = Some (2 ^ j)" "k + 1 \<le> j" "j < 32"
      "j = 0 \<or> 2 ^ j < unat iv" "unat iv \<le> 2 ^ (j + 1)" by blast
    have "qhConf_period (2 ^ k) iv = qhConf_period (2 ^ (k + 1)) iv"
      using True by (subst qhConf_period.simps) (simp add: mult.commute)
    with j show ?thesis by (intro exI [of _ j]) simp
  next
    case False
    then have ge: "unat iv \<le> 2 ^ (k + 1)" using u by (simp add: word_less_nat_alt)
    have "qhConf_period (2 ^ k) iv = Some (2 ^ k)"
      using False by (subst qhConf_period.simps) simp
    with ge Suc.prems k show ?thesis by (intro exI [of _ k]) auto
  qed
qed

lemma qhConf_period_one:
  assumes "unat iv \<le> 2 ^ 31"
  shows "\<exists>j. qhConf_period 1 iv = Some (2 ^ j) \<and> j < 32 \<and>
             (j = 0 \<or> 2 ^ j < unat iv) \<and> unat iv \<le> 2 ^ (j + 1)"
  using qhConf_period_pow2 [of 31 0 iv] assms by auto

text \<open>
  C4 (as amended). For a full- or low-speed interrupt pipe \<open>ehci_qhConf\<close> returns,
  and the period is the largest power of two strictly below the interval: a power
  of two \<open>2^k\<close> below the interval that no power of two below the interval exceeds;
  it is 1 when the interval is at most 1. The interval is taken up to \<open>2^31\<close>, where
  the unsigned doubling still ends.
\<close>

theorem qhConf_period_full_low_speed:
  assumes "pipe_type pipe = usb_transfer_interrupt" and "dev_speed pipe \<noteq> usb_high_speed"
    and "unat (interval pipe) \<le> 2 ^ 31"
  shows "\<exists>qh' k. ehci_qhConf qh pipe = Some qh' \<and> unat (qh_period qh') = 2 ^ k \<and>
           (unat (interval pipe) \<le> 1 \<longrightarrow> k = 0) \<and>
           (1 < unat (interval pipe) \<longrightarrow>
              2 ^ k < unat (interval pipe) \<and> (\<forall>j. 2 ^ j < unat (interval pipe) \<longrightarrow> j \<le> k))"
proof -
  from qhConf_period_one [OF assms(3)] obtain k where
    k: "qhConf_period 1 (interval pipe) = Some (2 ^ k)" "k < 32"
       "k = 0 \<or> 2 ^ k < unat (interval pipe)" "unat (interval pipe) \<le> 2 ^ (k + 1)"
    by blast
  from k(1) assms(1,2) obtain qh' where
    q: "ehci_qhConf qh pipe = Some qh'" "qh_period qh' = 2 ^ k"
    by (simp add: ehci_qhConf_def Let_def)
  have p: "unat (qh_period qh') = 2 ^ k" using q(2) k(2) by (simp add: unat_pow2_u32)
  have small: "unat (interval pipe) \<le> 1 \<longrightarrow> k = 0"
  proof
    assume "unat (interval pipe) \<le> 1"
    with k(3) show "k = 0" by (cases "k = 0") (auto dest: less_le_trans)
  qed
  have large: "1 < unat (interval pipe) \<longrightarrow>
      2 ^ k < unat (interval pipe) \<and> (\<forall>j. 2 ^ j < unat (interval pipe) \<longrightarrow> j \<le> k)"
  proof (intro impI conjI allI)
    assume "1 < unat (interval pipe)"
    with k(3) show "2 ^ k < unat (interval pipe)" by auto
  next
    fix j
    assume "2 ^ j < unat (interval pipe)"
    with k(4) have "(2::nat) ^ j < 2 ^ (k + 1)" by simp
    then have "j < k + 1" by (simp only: power_strict_increasing_iff [of 2] one_less_numeral_iff semiring_norm)
    then show "j \<le> k" by simp
  qed
  from q(1) p small large show ?thesis by blast
qed

text \<open>Witness for C4: a full-speed pipe with interval 5 gets the period 4.\<close>

theorem qhConf_period_full_low_speed_witness:
  "pipe_type (intr_pipe usb_full_speed 5) = usb_transfer_interrupt \<and>
   dev_speed (intr_pipe usb_full_speed 5) \<noteq> usb_high_speed \<and>
   unat (interval (intr_pipe usb_full_speed 5)) \<le> 2 ^ 31 \<and>
   (\<exists>qh'. ehci_qhConf reset_qh (intr_pipe usb_full_speed 5) = Some qh' \<and> qh_period qh' = 4)"
proof -
  have h: "pipe_type (intr_pipe usb_full_speed 5) = usb_transfer_interrupt"
    "dev_speed (intr_pipe usb_full_speed 5) \<noteq> usb_high_speed"
    "unat (interval (intr_pipe usb_full_speed 5)) \<le> 2 ^ 31"
    by (simp_all add: intr_pipe_def)
  from qhConf_period_full_low_speed [OF h, of reset_qh] obtain qh' where
    "ehci_qhConf reset_qh (intr_pipe usb_full_speed 5) = Some qh'" by blast
  moreover have "map_option qh_period (ehci_qhConf reset_qh (intr_pipe usb_full_speed 5)) = Some 4"
    by (simp add: ehci_qhConf_def intr_pipe_def qhConf_period.simps Let_def)
  ultimately show ?thesis using h by auto
qed

text \<open>
  C4 as stated fails: with interval 5 the period is 4, while the smallest power of
  two strictly below 5 is \<open>2^0 = 1\<close>.
\<close>

theorem qhConf_period_smallest_counterexample:
  "map_option qh_period (ehci_qhConf reset_qh (intr_pipe usb_full_speed 5)) = Some 4 \<and>
   (2::nat) ^ 0 < unat (interval (intr_pipe usb_full_speed 5)) \<and> (2::nat) ^ 0 < 4"
  by (simp add: ehci_qhConf_def intr_pipe_def qhConf_period.simps Let_def)

section \<open>Properties of the qTD builder\<close>

lemma u32_add: "unat a + unat b < 2 ^ 32 \<Longrightarrow> unat (a + b) = unat a + unat (b::u32)"
  using unat_add_lem [of a b] by simp

lemma u32_min_page:
  assumes "unat bytes \<le> unat (sz::u32)"
  shows "unat (min (sz - bytes) EHCI_PAGE_SIZE) = min (unat sz - unat bytes) 4096"
proof -
  have "unat (sz - bytes) = unat sz - unat bytes"
    using assms by (simp add: unat_sub word_le_nat_alt)
  then show ?thesis
    by (simp add: min_def word_le_nat_alt EHCI_PAGE_SIZE_def)
qed

lemma spec_pages_le: "b \<le> r \<Longrightarrow> spec_pages n r b \<le> r"
  by (induction n arbitrary: b) auto

lemma spec_pages_bound: "spec_pages n r b \<le> b + n * 4096"
proof (induction n arbitrary: b)
  case 0
  show ?case by simp
next
  case (Suc n)
  have "spec_pages n r (b + min (r - b) 4096) \<le> b + min (r - b) 4096 + n * 4096"
    by (rule Suc.IH)
  then show ?case by simp
qed

lemma spec_pages_done: "spec_pages n r r = r"
  by (induction n) auto

text \<open>The last round of the loop, for the fifth buffer pointer.\<close>

lemma qtdAlloc_pages_last:
  assumes le: "unat bytes \<le> unat sz" and small: "unat bytes \<le> 4 * 4096" and m: "m \<noteq> 0"
  shows "\<exists>i' B buf' bh'. qtdAlloc_pages pf m sz 4 bytes data buf bh = Some (i', B, buf', bh') \<and>
           unat B = (let t = spec_pages 1 (unat sz) (unat bytes)
                     in if t < unat sz then (t div unat m) * unat m else t)"
proof (cases "bytes = sz")
  case True
  then have "qtdAlloc_pages pf m sz 4 bytes data buf bh = Some (4, bytes, buf, bh)"
    by (subst qtdAlloc_pages.simps) simp
  with True show ?thesis by simp
next
  case False
  define offs where "offs = min (sz - bytes) EHCI_PAGE_SIZE"
  have uo: "unat offs = min (unat sz - unat bytes) 4096"
    unfolding offs_def using le by (rule u32_min_page)
  have ub: "unat (bytes + offs) = unat bytes + unat offs"
    using small uo by (intro u32_add) simp
  have t: "spec_pages 1 (unat sz) (unat bytes) = unat (bytes + offs)"
    using ub uo by simp
  show ?thesis
  proof (cases "bytes + offs < sz")
    case True
    define X where "X = ((bytes + offs) div m) * m"
    have "unat ((bytes + offs) div m) * unat m \<le> unat (bytes + offs)"
      by (simp add: unat_div)
    also have "\<dots> < 2 ^ 32" using unsigned_less [of "bytes + offs", where ?'a = nat] by simp
    finally have uX: "unat X = (unat (bytes + offs) div unat m) * unat m"
      unfolding X_def using unat_mult_lem [of "(bytes + offs) div m" m] by (simp add: unat_div)
    have step: "qtdAlloc_pages pf m sz 4 bytes data buf bh =
        qtdAlloc_pages pf m sz 5 X (data + (X - bytes))
          (buf[4 := va2pa pf data AND NOT 0xfff]) (bh[4 := 0])"
      using False True m
      by (subst qtdAlloc_pages.simps) (simp add: EHCI_QH_NBUFS_def Let_def offs_def X_def)
    have "qtdAlloc_pages pf m sz 5 X (data + (X - bytes))
          (buf[4 := va2pa pf data AND NOT 0xfff]) (bh[4 := 0]) =
        Some (5, X, buf[4 := va2pa pf data AND NOT 0xfff], bh[4 := 0])"
      by (subst qtdAlloc_pages.simps) (simp add: EHCI_QH_NBUFS_def)
    moreover have "unat (bytes + offs) < unat sz" using True by (simp add: word_less_nat_alt)
    ultimately show ?thesis using step uX t by (simp del: spec_pages.simps)
  next
    case ge: False
    have step: "qtdAlloc_pages pf m sz 4 bytes data buf bh =
        qtdAlloc_pages pf m sz 5 (bytes + offs) (data + offs)
          (buf[4 := va2pa pf data AND NOT 0xfff]) (bh[4 := 0])"
      using False ge
      by (subst qtdAlloc_pages.simps) (simp add: EHCI_QH_NBUFS_def Let_def offs_def)
    have "qtdAlloc_pages pf m sz 5 (bytes + offs) (data + offs)
          (buf[4 := va2pa pf data AND NOT 0xfff]) (bh[4 := 0]) =
        Some (5, bytes + offs, buf[4 := va2pa pf data AND NOT 0xfff], bh[4 := 0])"
      by (subst qtdAlloc_pages.simps) (simp add: EHCI_QH_NBUFS_def)
    moreover have "\<not> unat (bytes + offs) < unat sz" using ge by (simp add: word_less_nat_alt)
    ultimately show ?thesis using step t by (simp del: spec_pages.simps)
  qed
qed

text \<open>The rounds before the last, by induction on the number of rounds left.\<close>

lemma qtdAlloc_pages_bytes:
  assumes "n = 4 - i" and "1 \<le> i" and "i \<le> 4"
    and "unat bytes \<le> unat sz" and "unat bytes \<le> i * 4096" and "m \<noteq> 0"
  shows "\<exists>i' B buf' bh'. qtdAlloc_pages pf m sz i bytes data buf bh = Some (i', B, buf', bh') \<and>
           unat B = (let t = spec_pages (5 - i) (unat sz) (unat bytes)
                     in if t < unat sz then (t div unat m) * unat m else t)"
  using assms
proof (induction n arbitrary: i bytes data buf bh)
  case 0
  then have "i = 4" by simp
  with 0 qtdAlloc_pages_last [of bytes sz m pf data buf bh] show ?case by simp
next
  case (Suc n)
  then have i: "i < 4" by simp
  show ?case
  proof (cases "bytes = sz")
    case True
    then have "qtdAlloc_pages pf m sz i bytes data buf bh = Some (i, bytes, buf, bh)"
      by (subst qtdAlloc_pages.simps) simp
    with True show ?thesis by (simp add: spec_pages_done)
  next
    case False
    define offs where "offs = min (sz - bytes) EHCI_PAGE_SIZE"
    have uo: "unat offs = min (unat sz - unat bytes) 4096"
      unfolding offs_def using Suc.prems(4) by (rule u32_min_page)
    have ub: "unat (bytes + offs) = unat bytes + unat offs"
      using Suc.prems(5) i uo by (intro u32_add) simp
    have step: "qtdAlloc_pages pf m sz i bytes data buf bh =
        qtdAlloc_pages pf m sz (i + 1) (bytes + offs) (data + offs)
          (buf[i := va2pa pf data AND NOT 0xfff]) (bh[i := 0])"
      using False i
      by (subst qtdAlloc_pages.simps) (simp add: EHCI_QH_NBUFS_def Let_def offs_def)
    have "\<exists>i' B buf' bh'. qtdAlloc_pages pf m sz (i + 1) (bytes + offs) (data + offs)
          (buf[i := va2pa pf data AND NOT 0xfff]) (bh[i := 0]) = Some (i', B, buf', bh') \<and>
           unat B = (let t = spec_pages (5 - (i + 1)) (unat sz) (unat (bytes + offs))
                     in if t < unat sz then (t div unat m) * unat m else t)"
    proof (rule Suc.IH)
      show "n = 4 - (i + 1)" using Suc.prems(1) by simp
      show "1 \<le> i + 1" by simp
      show "i + 1 \<le> 4" using i by simp
      show "unat (bytes + offs) \<le> unat sz" using ub uo Suc.prems(4) by simp
      show "unat (bytes + offs) \<le> (i + 1) * 4096" using ub uo Suc.prems(5) by simp
      show "m \<noteq> 0" by fact
    qed
    moreover have "spec_pages (5 - i) (unat sz) (unat bytes) =
        spec_pages (5 - (i + 1)) (unat sz) (unat (bytes + offs))"
    proof -
      have "5 - i = Suc (5 - (i + 1))" using i by simp
      then show ?thesis using ub uo by simp
    qed
    ultimately show ?thesis using step by simp
  qed
qed

lemma and_0x7fff: "x AND (0x7fff::u32) = take_bit 15 x"
  using take_bit_eq_mask [of 15 x] by (simp add: mask_eq_exp_minus_1)

lemma drop_push_16:
  fixes B :: u32
  assumes "unat B < 2 ^ 15"
  shows "drop_bit 16 (push_bit 16 B) = B"
proof -
  have "unat B * unat (65536::u32) < 2 ^ 32" using assms by simp
  then have "unat (B * 65536) = unat B * 65536"
    using unat_mult_lem [of B 65536] by simp
  then have "unat (B * 65536 div 65536) = unat B"
    by (simp add: unat_div)
  then show ?thesis
    by (simp add: drop_bit_eq_div push_bit_eq_mult word_unat_eq_iff)
qed

lemma take_15:
  fixes B :: u32
  assumes "unat B < 2 ^ 15"
  shows "take_bit 15 B = B"
  using assms
  by (simp add: take_bit_eq_self_iff_drop_bit_eq_0 word_less_nat_alt less_mask_eq
      take_bit_eq_mod unat_mod word_unat_eq_iff)

text \<open>
  The byte count lands in bits 16-30 of the token: \<open>QTD_LEN\<close> reads it back, the
  other fields of the fresh token being outside these bits.
\<close>

lemma QTD_LEN_token:
  fixes B :: u32
  assumes "unat B < 2 ^ 15"
  shows "QTD_LEN ((push_bit 31 (of_bool datax) OR push_bit 8 (pid_code pid)
                    OR push_bit 10 EHCI_TRANS_ERRORS OR QTD_ACTIVE) OR push_bit 16 B) = B"
proof -
  have c: "drop_bit 16 (push_bit 8 (pid_code pid) OR push_bit 10 EHCI_TRANS_ERRORS OR QTD_ACTIVE)
             = (0::u32)"
    by (cases pid) (simp_all add: EHCI_TRANS_ERRORS_def QTD_ACTIVE_def)
  have d: "take_bit 15 (drop_bit 16 (push_bit 31 (of_bool datax) :: u32)) = 0"
    by (cases datax) simp_all
  have "QTD_LEN (push_bit 31 (of_bool datax) OR (push_bit 8 (pid_code pid)
                    OR push_bit 10 EHCI_TRANS_ERRORS OR QTD_ACTIVE) OR push_bit 16 B)
      = take_bit 15 (drop_bit 16 (push_bit 31 (of_bool datax) :: u32)) OR
        take_bit 15 (drop_bit 16 (push_bit 8 (pid_code pid) OR push_bit 10 EHCI_TRANS_ERRORS
                                   OR QTD_ACTIVE)) OR
        take_bit 15 (drop_bit 16 (push_bit 16 B))"
    unfolding QTD_LEN_def and_0x7fff by (simp only: drop_bit_or take_bit_or)
  also have "\<dots> = B"
    unfolding c d drop_push_16 [OF assms] take_15 [OF assms] by simp
  finally show ?thesis by (simp only: or.assoc)
qed

lemma first_page_bytes:
  "unat (min (EHCI_PAGE_SIZE - QTD_OFFSET b0) sz) = min (unat sz) (4096 - unat (QTD_OFFSET b0))"
proof -
  have "QTD_OFFSET b0 \<le> 0xfff"
    unfolding QTD_OFFSET_def EHCI_PAGE_SIZE_def by (simp add: word_and_le1)
  then have o: "unat (QTD_OFFSET b0) \<le> 4095" by (simp add: word_le_nat_alt)
  then have "unat (EHCI_PAGE_SIZE - QTD_OFFSET b0) = 4096 - unat (QTD_OFFSET b0)"
    unfolding EHCI_PAGE_SIZE_def by (subst unat_sub) (simp_all add: word_le_nat_alt)
  then show ?thesis by (simp add: min_def word_le_nat_alt)
qed

text \<open>
  The builder on the record of a qTD with a buffer: it returns, the length field of
  the token is the byte count of the specification, and \<open>*size\<close> goes down by it.
\<close>

lemma qtdAlloc_init_bytes:
  assumes "data \<noteq> 0" and "maxpacksz \<noteq> 0"
  shows "\<exists>d sz'. qtdAlloc_init pf d0 pid maxpacksz data sz datax = Some (d, sz') \<and>
           unat (QTD_LEN (qtd_token d))
             = spec_qtd_bytes (unat (QTD_OFFSET (va2pa pf data))) (unat maxpacksz) (unat sz) \<and>
           unat sz' = unat sz
             - spec_qtd_bytes (unat (QTD_OFFSET (va2pa pf data))) (unat maxpacksz) (unat sz) \<and>
           spec_qtd_bytes (unat (QTD_OFFSET (va2pa pf data))) (unat maxpacksz) (unat sz) \<le> unat sz"
proof -
  define offs where "offs = min (EHCI_PAGE_SIZE - QTD_OFFSET (va2pa pf data)) sz"
  define r where "r = unat sz"
  define off where "off = unat (QTD_OFFSET (va2pa pf data))"
  define buf where "buf = (qtd_buf d0)[0 := va2pa pf data]"
  define bh where "bh = (qtd_buf_hi d0)[0 := 0]"
  have uo: "unat offs = min r (4096 - off)"
    unfolding offs_def r_def off_def by (rule first_page_bytes)
  then have o1: "unat offs \<le> unat sz" and o2: "unat offs \<le> 1 * 4096"
    by (simp_all add: r_def)
  from qtdAlloc_pages_bytes [OF _ _ _ o1 o2 assms(2), of 3 pf "data + offs" buf bh]
  obtain i' B buf' bh' where
    pg: "qtdAlloc_pages pf maxpacksz sz 1 offs (data + offs) buf bh = Some (i', B, buf', bh')"
    and uB: "unat B = (let t = spec_pages 4 r (unat offs)
                       in if t < r then (t div unat maxpacksz) * unat maxpacksz else t)"
    by (auto simp: r_def)
  have B: "unat B = spec_qtd_bytes off (unat maxpacksz) r"
    using uB uo by (simp add: spec_qtd_bytes_def)
  have t_le: "spec_pages 4 r (unat offs) \<le> r"
    using o1 by (intro spec_pages_le) (simp add: r_def)
  have t_bd: "spec_pages 4 r (unat offs) \<le> unat offs + 4 * 4096"
    by (rule spec_pages_bound)
  have uB': "unat B \<le> spec_pages 4 r (unat offs)"
    using uB by (simp add: Let_def)
  have B_le: "unat B \<le> r"
    using uB' t_le by (rule order_trans)
  have B_bd: "unat B < 2 ^ 15"
    using uB' t_bd o2 by simp
  obtain bz bhz where z: "qtdAlloc_zero i' buf' bh' = (bz, bhz)"
    by (cases "qtdAlloc_zero i' buf' bh'")
  let ?token = "push_bit 31 (of_bool datax) OR push_bit 8 (pid_code pid)
                  OR push_bit 10 EHCI_TRANS_ERRORS OR QTD_ACTIVE"
  let ?d = "d0\<lparr>qtd_token := ?token, qtd_next := QTD_PTR_INVALID, qtd_altnext := QTD_PTR_INVALID,
              qtd_buf := bz, qtd_buf_hi := bhz, qtd_token := ?token OR push_bit 16 B\<rparr>"
  have run: "qtdAlloc_init pf d0 pid maxpacksz data sz datax = Some (?d, sz - B)"
    using assms(1) pg z
    by (simp add: qtdAlloc_init_def Let_def offs_def buf_def bh_def)
  have sel: "qtd_token (d0\<lparr>qtd_token := a, qtd_next := b, qtd_altnext := c, qtd_buf := bz,
                 qtd_buf_hi := bhz, qtd_token := x\<rparr>) = x" for a b c x
    by simp
  have "qtd_token ?d = ?token OR push_bit 16 B"
    by (rule sel)
  then have len: "QTD_LEN (qtd_token ?d) = B"
    using QTD_LEN_token [OF B_bd, of datax pid] by (simp only:)
  have sub: "unat (sz - B) = unat sz - unat B"
    using B_le by (simp add: unat_sub word_le_nat_alt r_def)
  from run len sub B B_le show ?thesis
    unfolding r_def off_def by (intro exI [of _ ?d] exI [of _ "sz - B"]) simp
qed

text \<open>
  C5. When \<open>ehci_qtdAlloc\<close> gets a descriptor \<open>q\<close> and the buffer is not
  \<open>NULL\<close>, it returns \<open>q\<close>; the byte count is the one of the specification
  (page by page, truncated to a multiple of the packet size when five pages do
  not exhaust the remaining bytes), it is in bits 16-30 of the token and it is
  subtracted from the remaining-byte counter. The packet size is not zero, or the
  division of the truncation would trap.
\<close>

theorem ehci_qtdAlloc_byte_count:
  assumes "qtdAlloc_get pf e = (Some q, e2)" and "data \<noteq> 0" and "maxpacksz \<noteq> 0"
  shows "\<exists>sz' e'. ehci_qtdAlloc pf e pid maxpacksz data sz datax = Some (Some q, sz', e') \<and>
           unat (QTD_LEN (qtd_token (qtds e' q)))
             = spec_qtd_bytes (unat (QTD_OFFSET (va2pa pf data))) (unat maxpacksz) (unat sz) \<and>
           unat sz' = unat sz
             - spec_qtd_bytes (unat (QTD_OFFSET (va2pa pf data))) (unat maxpacksz) (unat sz) \<and>
           spec_qtd_bytes (unat (QTD_OFFSET (va2pa pf data))) (unat maxpacksz) (unat sz) \<le> unat sz"
proof -
  from qtdAlloc_init_bytes [OF assms(2,3), of pf "qtds e2 q" pid sz datax]
  obtain d sz' where
    i: "qtdAlloc_init pf (qtds e2 q) pid maxpacksz data sz datax = Some (d, sz')"
    and p: "unat (QTD_LEN (qtd_token d))
             = spec_qtd_bytes (unat (QTD_OFFSET (va2pa pf data))) (unat maxpacksz) (unat sz)"
       "unat sz' = unat sz
             - spec_qtd_bytes (unat (QTD_OFFSET (va2pa pf data))) (unat maxpacksz) (unat sz)"
       "spec_qtd_bytes (unat (QTD_OFFSET (va2pa pf data))) (unat maxpacksz) (unat sz) \<le> unat sz"
    by blast
  have "ehci_qtdAlloc pf e pid maxpacksz data sz datax
          = Some (Some q, sz', e2\<lparr>qtds := (qtds e2)(q := d)\<rparr>)"
    using assms(1) i by (simp add: ehci_qtdAlloc_def)
  with p show ?thesis by simp
qed

lemma spec_pages_4:
  "spec_pages 4 r b =
     (let b1 = b + min (r - b) 4096; b2 = b1 + min (r - b1) 4096;
          b3 = b2 + min (r - b2) 4096
      in b3 + min (r - b3) 4096)"
proof -
  have "(4::nat) = Suc (Suc (Suc (Suc 0)))" by simp
  then show ?thesis by (simp only: spec_pages.simps Let_def)
qed

text \<open>
  Witness for C5: 24000 bytes from a buffer 256 bytes into its page, with packets
  of 512 bytes: five pages hold 20224 bytes, the qTD takes 19968 = 39 * 512 and
  4032 remain.
\<close>

theorem ehci_qtdAlloc_byte_count_witness:
  "fst (qtdAlloc_get pf0 (ehci0 [True])) = Some 1 \<and> (0x20000100 :: u32) \<noteq> 0 \<and> (512 :: u32) \<noteq> 0 \<and>
   (\<exists>sz' e'. ehci_qtdAlloc pf0 (ehci0 [True]) in_token 512 0x20000100 24000 True
                = Some (Some 1, sz', e') \<and>
              unat (QTD_LEN (qtd_token (qtds e' 1))) = 19968 \<and> unat sz' = 4032)"
proof -
  obtain e2 where g: "qtdAlloc_get pf0 (ehci0 [True]) = (Some 1, e2)"
    by (simp add: qtdAlloc_get_def ehci_qtdGet_def mem_alloc_def ehci0_def)
  have o: "unat (QTD_OFFSET (va2pa pf0 0x20000100)) = 256"
    by (simp add: QTD_OFFSET_def pf0_def EHCI_PAGE_SIZE_def)
  have s: "spec_qtd_bytes 256 512 24000 = 19968"
    by (simp add: spec_qtd_bytes_def spec_pages_4)
  have n: "(0x20000100 :: u32) \<noteq> 0" "(512 :: u32) \<noteq> 0" by simp_all
  from ehci_qtdAlloc_byte_count [OF g n, of in_token 24000 True] o s g n
  show ?thesis by simp
qed

section \<open>Properties of the descriptor pools\<close>

lemma qtdsPut_one_below:
  assumes "pool_inv pf e" and "nqtds e < EHCI_MAX_QTD_POOL pf"
  shows "qtdsPut_one pf e q =
           Some (e\<lparr>qtdPool := qtdPool e @ [q],
                   qtds := (qtds e)(q := (qtds e q)\<lparr>qtd_qh := None\<rparr>),
                   nqtds := nqtds e + 1\<rparr>)"
  using assms by (simp add: qtdsPut_one_def)

lemma qtdsPut_one_at_cap:
  assumes "pool_inv pf e" and "nqtds e \<ge> EHCI_MAX_QTD_POOL pf"
  shows "\<exists>t rest. qtdPool e = t # rest \<and>
           qtdsPut_one pf e q =
             Some (e\<lparr>qtdPool := rest @ [q], destroyed := t # destroyed e,
                     qtds := (qtds e)(q := (qtds e q)\<lparr>qtd_qh := None\<rparr>),
                     nqtds := nqtds e\<rparr>)"
proof -
  from assms have "0 < length (qtdPool e)" by (auto simp: pool_inv_def)
  then obtain t rest where p: "qtdPool e = t # rest" by (cases "qtdPool e") auto
  with assms(2) show ?thesis by (simp add: qtdsPut_one_def)
qed

lemma qtdsPut_one_inv:
  assumes "pool_inv pf e"
  shows "\<exists>e'. qtdsPut_one pf e q = Some e' \<and> pool_inv pf e' \<and>
              nqhs e' = nqhs e \<and> qhPool e' = qhPool e"
proof (cases "nqtds e < EHCI_MAX_QTD_POOL pf")
  case True
  from qtdsPut_one_below [OF assms True, of q] assms True show ?thesis
    by (simp add: pool_inv_def)
next
  case False
  then have "nqtds e \<ge> EHCI_MAX_QTD_POOL pf" by simp
  from qtdsPut_one_at_cap [OF assms this, of q] obtain t rest where
    "qtdPool e = t # rest"
    "qtdsPut_one pf e q =
        Some (e\<lparr>qtdPool := rest @ [q], destroyed := t # destroyed e,
                qtds := (qtds e)(q := (qtds e q)\<lparr>qtd_qh := None\<rparr>), nqtds := nqtds e\<rparr>)"
    by blast
  with assms show ?thesis by (simp add: pool_inv_def)
qed

lemma ehci_qtdsPut_inv:
  assumes "pool_inv pf e"
  shows "\<exists>e'. ehci_qtdsPut pf e head = Some e' \<and> pool_inv pf e' \<and>
              nqhs e' = nqhs e \<and> qhPool e' = qhPool e"
  using assms
proof (induction head arbitrary: e)
  case Nil
  then show ?case by simp
next
  case (Cons q head)
  from qtdsPut_one_inv [OF Cons.prems, of q] obtain e1 where
    e1: "qtdsPut_one pf e q = Some e1" "pool_inv pf e1" "nqhs e1 = nqhs e" "qhPool e1 = qhPool e"
    by blast
  from Cons.IH [OF e1(2)] obtain e' where
    "ehci_qtdsPut pf e1 head = Some e'" "pool_inv pf e'" "nqhs e' = nqhs e1" "qhPool e' = qhPool e1"
    by blast
  with e1 show ?case by simp
qed

lemma ehci_qhPut_below:
  assumes "pool_inv pf e" and "nqhs e < EHCI_MAX_QH_POOL pf"
  shows "ehci_qhPut pf e qh =
           Some (e\<lparr>qhs := list_add_qh (qhs e) (qhPool e) qh, qhPool := qhPool e @ [qh],
                   nqhs := nqhs e + 1\<rparr>)"
  using assms by (simp add: ehci_qhPut_def)

lemma ehci_qhPut_at_cap:
  assumes "pool_inv pf e" and "nqhs e \<ge> EHCI_MAX_QH_POOL pf"
  shows "\<exists>t rest. qhPool e = t # rest \<and>
           ehci_qhPut pf e qh =
             Some (e\<lparr>qhs := list_add_qh (list_remove_qh (qhs e) t rest) rest qh,
                     qhPool := rest @ [qh], destroyed := t # destroyed e, nqhs := nqhs e\<rparr>)"
proof -
  from assms have "0 < length (qhPool e)" by (auto simp: pool_inv_def)
  then obtain t rest where p: "qhPool e = t # rest" by (cases "qhPool e") auto
  with assms(2) show ?thesis by (simp add: ehci_qhPut_def)
qed

lemma ehci_qhPut_inv:
  assumes "pool_inv pf e"
  shows "\<exists>e'. ehci_qhPut pf e qh = Some e' \<and> pool_inv pf e' \<and>
              nqtds e' = nqtds e \<and> qtdPool e' = qtdPool e"
proof (cases "nqhs e < EHCI_MAX_QH_POOL pf")
  case True
  from ehci_qhPut_below [OF assms True, of qh] assms True show ?thesis
    by (simp add: pool_inv_def)
next
  case False
  then have "nqhs e \<ge> EHCI_MAX_QH_POOL pf" by simp
  from ehci_qhPut_at_cap [OF assms this, of qh] obtain t rest where
    "qhPool e = t # rest"
    "ehci_qhPut pf e qh =
        Some (e\<lparr>qhs := list_add_qh (list_remove_qh (qhs e) t rest) rest qh,
                qhPool := rest @ [qh], destroyed := t # destroyed e, nqhs := nqhs e\<rparr>)"
    by blast
  with assms show ?thesis by (simp add: pool_inv_def)
qed

lemma ehci_qtdGet_inv:
  assumes "pool_inv pf e"
  shows "pool_inv pf (snd (ehci_qtdGet e))"
  using assms by (cases "qtdPool e") (simp_all add: ehci_qtdGet_def pool_inv_def)

lemma ehci_qhGet_inv:
  assumes "pool_inv pf e"
  shows "pool_inv pf (snd (ehci_qhGet e))"
  using assms by (cases "qhPool e") (simp_all add: ehci_qhGet_def pool_inv_def)

lemma pool_step_inv:
  assumes "pool_inv pf e"
  shows "\<exists>e'. pool_step pf e x = Some e' \<and> pool_inv pf e'"
proof (cases x)
  case QtdGet
  with ehci_qtdGet_inv [OF assms] show ?thesis by simp
next
  case (QtdsPut head)
  with ehci_qtdsPut_inv [OF assms, of head] show ?thesis by auto
next
  case QhGet
  with ehci_qhGet_inv [OF assms] show ?thesis by simp
next
  case (QhPut qh)
  with ehci_qhPut_inv [OF assms, of qh] show ?thesis by auto
qed

lemma pool_run_inv:
  assumes "pool_inv pf e"
  shows "\<exists>e'. pool_run pf e ops = Some e' \<and> pool_inv pf e'"
  using assms
proof (induction ops arbitrary: e)
  case Nil
  then show ?case by simp
next
  case (Cons x xs)
  from pool_step_inv [OF Cons.prems, of x] obtain e1 where
    e1: "pool_step pf e x = Some e1" "pool_inv pf e1" by blast
  from Cons.IH [OF e1(2)] e1(1) show ?case by simp
qed

text \<open>
  C8. From a state of the pools as the driver keeps them, every sequence of pool
  operations returns and leaves both counters within their caps; and a release at
  the cap destroys the head of the pool (it joins the destroyed descriptors) and
  appends the released descriptor, the counter staying where it was.
\<close>

theorem pool_counters_within_caps:
  assumes "pool_inv pf e"
  shows "(\<exists>e'. pool_run pf e ops = Some e' \<and> nqtds e' \<le> EHCI_MAX_QTD_POOL pf \<and>
               nqhs e' \<le> EHCI_MAX_QH_POOL pf) \<and>
         (nqtds e \<ge> EHCI_MAX_QTD_POOL pf \<longrightarrow>
            (\<exists>e'. qtdsPut_one pf e q = Some e' \<and> destroyed e' = hd (qtdPool e) # destroyed e \<and>
                   qtdPool e' = tl (qtdPool e) @ [q] \<and> nqtds e' = nqtds e)) \<and>
         (nqhs e \<ge> EHCI_MAX_QH_POOL pf \<longrightarrow>
            (\<exists>e'. ehci_qhPut pf e qh = Some e' \<and> destroyed e' = hd (qhPool e) # destroyed e \<and>
                   qhPool e' = tl (qhPool e) @ [qh] \<and> nqhs e' = nqhs e))"
proof (intro conjI impI)
  from pool_run_inv [OF assms, of ops]
  show "\<exists>e'. pool_run pf e ops = Some e' \<and> nqtds e' \<le> EHCI_MAX_QTD_POOL pf \<and>
               nqhs e' \<le> EHCI_MAX_QH_POOL pf"
    by (auto simp: pool_inv_def)
next
  assume "nqtds e \<ge> EHCI_MAX_QTD_POOL pf"
  from qtdsPut_one_at_cap [OF assms this, of q]
  show "\<exists>e'. qtdsPut_one pf e q = Some e' \<and> destroyed e' = hd (qtdPool e) # destroyed e \<and>
              qtdPool e' = tl (qtdPool e) @ [q] \<and> nqtds e' = nqtds e"
    by auto
next
  assume "nqhs e \<ge> EHCI_MAX_QH_POOL pf"
  from ehci_qhPut_at_cap [OF assms this, of qh]
  show "\<exists>e'. ehci_qhPut pf e qh = Some e' \<and> destroyed e' = hd (qhPool e) # destroyed e \<and>
              qhPool e' = tl (qhPool e) @ [qh] \<and> nqhs e' = nqhs e"
    by auto
qed

text \<open>
  Witness for C8: with both pools full, releasing two qTDs and a QH and taking a
  qTD keeps the counters within 20 and 10; the release of qTD 40 destroys qTD 1
  and that of QH 42 destroys QH 21.
\<close>

theorem pool_counters_within_caps_witness:
  "pool_inv pf0 ehci_full \<and> nqtds ehci_full \<ge> EHCI_MAX_QTD_POOL pf0 \<and>
   nqhs ehci_full \<ge> EHCI_MAX_QH_POOL pf0 \<and>
   (\<exists>e'. pool_run pf0 ehci_full [QtdsPut [40, 41], QhPut 42, QtdGet] = Some e' \<and>
         nqtds e' \<le> 20 \<and> nqhs e' \<le> 10) \<and>
   (\<exists>e'. qtdsPut_one pf0 ehci_full 40 = Some e' \<and> destroyed e' = [1] \<and> nqtds e' = 20) \<and>
   (\<exists>e'. ehci_qhPut pf0 ehci_full 42 = Some e' \<and> destroyed e' = [21] \<and> nqhs e' = 10)"
proof -
  have inv: "pool_inv pf0 ehci_full"
    by (simp add: pool_inv_def pf0_def ehci_full_def ehci0_def)
  have c: "nqtds ehci_full \<ge> EHCI_MAX_QTD_POOL pf0" "nqhs ehci_full \<ge> EHCI_MAX_QH_POOL pf0"
    by (simp_all add: pf0_def ehci_full_def)
  have v: "EHCI_MAX_QTD_POOL pf0 = 20" "EHCI_MAX_QH_POOL pf0 = 10" "nqtds ehci_full = 20"
    "nqhs ehci_full = 10" "destroyed ehci_full = []" "hd (qtdPool ehci_full) = 1"
    "hd (qhPool ehci_full) = 21"
    by (simp_all add: pf0_def ehci_full_def ehci0_def)
  from pool_counters_within_caps [OF inv, of "[QtdsPut [40, 41], QhPut 42, QtdGet]" 40 42]
  show ?thesis using inv c unfolding v by auto
qed

lemma ehci_qtdAlloc_pools:
  assumes "ehci_qtdAlloc pf e pid maxpacksz data sz datax = Some (Some q, sz', e1)"
  shows "\<exists>e2. qtdAlloc_get pf e = (Some q, e2) \<and> qtdPool e1 = qtdPool e2 \<and> nqtds e1 = nqtds e2 \<and>
              qhPool e1 = qhPool e2 \<and> nqhs e1 = nqhs e2"
proof -
  obtain r e2 where g: "qtdAlloc_get pf e = (r, e2)" by (cases "qtdAlloc_get pf e")
  show ?thesis
  proof (cases r)
    case None
    with g assms show ?thesis by (simp add: ehci_qtdAlloc_def)
  next
    case (Some q')
    with g assms obtain d where "q = q'" "e1 = e2\<lparr>qtds := (qtds e2)(q' := d)\<rparr>"
      by (auto simp: ehci_qtdAlloc_def split: option.splits)
    with Some g show ?thesis by simp
  qed
qed

lemma qtdAlloc_get_pools:
  assumes "qtdAlloc_get pf e = (Some q, e2)"
  shows "qhPool e2 = qhPool e \<and> nqhs e2 = nqhs e \<and>
         (case qtdPool e of
            [] \<Rightarrow> qtdPool e2 = [] \<and> nqtds e2 = nqtds e
          | a # rest \<Rightarrow> qtdPool e2 = rest \<and> nqtds e2 = nqtds e - 1)"
proof (cases "qtdPool e")
  case Nil
  then have g: "ehci_qtdGet e = (None, e)" by (simp add: ehci_qtdGet_def)
  show ?thesis
  proof (cases "mem_ok e")
    case Nil
    with g assms show ?thesis by (simp add: qtdAlloc_get_def mem_alloc_def)
  next
    case (Cons ok oks)
    with g assms \<open>qtdPool e = []\<close> show ?thesis
      by (cases ok) (auto simp: qtdAlloc_get_def mem_alloc_def)
  qed
next
  case (Cons a rest)
  then have "ehci_qtdGet e = (Some a, e\<lparr>qtdPool := rest, nqtds := nqtds e - 1\<rparr>)"
    by (simp add: ehci_qtdGet_def)
  with assms Cons show ?thesis by (auto simp: qtdAlloc_get_def)
qed

lemma ehci_qhAlloc_pools:
  assumes "ehci_qhAlloc e = (Some qh, e1)"
  shows "qtdPool e1 = qtdPool e \<and> nqtds e1 = nqtds e \<and>
         (case qhPool e of
            [] \<Rightarrow> qhPool e1 = [] \<and> nqhs e1 = nqhs e
          | a # rest \<Rightarrow> qhPool e1 = rest \<and> nqhs e1 = nqhs e - 1)"
proof (cases "qhPool e")
  case Nil
  then have g: "ehci_qhGet e = (None, e)" by (simp add: ehci_qhGet_def)
  show ?thesis
  proof (cases "mem_ok e")
    case Nil
    with g assms show ?thesis by (simp add: ehci_qhAlloc_def mem_alloc_def)
  next
    case (Cons ok oks)
    with g assms \<open>qhPool e = []\<close> show ?thesis
      by (cases ok) (auto simp: ehci_qhAlloc_def mem_alloc_def Let_def split: prod.splits)
  qed
next
  case (Cons a rest)
  then have "ehci_qhGet e =
      (Some a, e\<lparr>qhs := list_remove_qh (qhs e) a rest, qhPool := rest, nqhs := nqhs e - 1\<rparr>)"
    by (simp add: ehci_qhGet_def)
  with assms Cons show ?thesis by (auto simp: ehci_qhAlloc_def Let_def split: prod.splits)
qed

text \<open>
  C6 (as amended). From a state of the pools as the driver keeps them, a successful
  allocation followed by the release of the same descriptor leaves the counter of
  the other kind unchanged, and its own counter unchanged when the descriptor came
  from the pool; when the pool was empty the descriptor is new and its release
  raises the counter by one.
\<close>

theorem alloc_release_counters:
  assumes "pool_inv pf e"
  shows "(ehci_qtdAlloc pf e pid maxpacksz data sz datax = Some (Some q, sz', e1) \<longrightarrow>
            (\<exists>e2. ehci_qtdsPut pf e1 [q] = Some e2 \<and> nqhs e2 = nqhs e \<and>
                   nqtds e2 = (if qtdPool e = [] then nqtds e + 1 else nqtds e))) \<and>
         (ehci_qhAlloc e = (Some qh, e1') \<longrightarrow>
            (\<exists>e2. ehci_qhPut pf e1' qh = Some e2 \<and> nqtds e2 = nqtds e \<and>
                   nqhs e2 = (if qhPool e = [] then nqhs e + 1 else nqhs e)))"
proof (intro conjI impI)
  assume a: "ehci_qtdAlloc pf e pid maxpacksz data sz datax = Some (Some q, sz', e1)"
  from ehci_qtdAlloc_pools [OF a] obtain e0 where
    g: "qtdAlloc_get pf e = (Some q, e0)" and
    s: "qtdPool e1 = qtdPool e0" "nqtds e1 = nqtds e0" "qhPool e1 = qhPool e0" "nqhs e1 = nqhs e0"
    by blast
  note p = qtdAlloc_get_pools [OF g]
  have inv1: "pool_inv pf e1" and below: "nqtds e1 < EHCI_MAX_QTD_POOL pf"
    and cnt: "nqtds e1 + 1 = (if qtdPool e = [] then nqtds e + 1 else nqtds e)"
    and h: "nqhs e1 = nqhs e"
    using assms p s by (cases "qtdPool e"; simp add: pool_inv_def)+
  from qtdsPut_one_below [OF inv1 below, of q] cnt h
  show "\<exists>e2. ehci_qtdsPut pf e1 [q] = Some e2 \<and> nqhs e2 = nqhs e \<and>
             nqtds e2 = (if qtdPool e = [] then nqtds e + 1 else nqtds e)"
    by simp
next
  assume a: "ehci_qhAlloc e = (Some qh, e1')"
  note p = ehci_qhAlloc_pools [OF a]
  have inv1: "pool_inv pf e1'" and below: "nqhs e1' < EHCI_MAX_QH_POOL pf"
    and cnt: "nqhs e1' + 1 = (if qhPool e = [] then nqhs e + 1 else nqhs e)"
    and h: "nqtds e1' = nqtds e"
    using assms p by (cases "qhPool e"; simp add: pool_inv_def)+
  from ehci_qhPut_below [OF inv1 below, of qh] cnt h
  show "\<exists>e2. ehci_qhPut pf e1' qh = Some e2 \<and> nqtds e2 = nqtds e \<and>
             nqhs e2 = (if qhPool e = [] then nqhs e + 1 else nqhs e)"
    by simp
qed

lemma ehci_qhAlloc_hit:
  assumes "ehci_qhGet e = (Some qh, e1)"
  shows "\<exists>e'. ehci_qhAlloc e = (Some qh, e')"
  using assms by (auto simp: ehci_qhAlloc_def Let_def split: prod.splits)

text \<open>
  Witness for C6: with qTD 1 and QH 2 in the pools, allocating and releasing either
  leaves both counters at 1.
\<close>

theorem alloc_release_counters_witness:
  "pool_inv pf0 ehci_pooled \<and>
   (\<exists>e1. ehci_qtdAlloc pf0 ehci_pooled out_token 64 0 0 True = Some (Some 1, 0, e1) \<and>
      (\<exists>e2. ehci_qtdsPut pf0 e1 [1] = Some e2 \<and> nqhs e2 = 1 \<and> nqtds e2 = 1)) \<and>
   (\<exists>e1'. ehci_qhAlloc ehci_pooled = (Some 2, e1') \<and>
      (\<exists>e2. ehci_qhPut pf0 e1' 2 = Some e2 \<and> nqtds e2 = 1 \<and> nqhs e2 = 1))"
proof -
  have inv: "pool_inv pf0 ehci_pooled"
    by (simp add: pool_inv_def pf0_def ehci_pooled_def ehci0_def)
  obtain e1 where a: "ehci_qtdAlloc pf0 ehci_pooled out_token 64 0 0 True = Some (Some 1, 0, e1)"
    by (simp add: ehci_qtdAlloc_def qtdAlloc_get_def ehci_qtdGet_def qtdAlloc_init_def
        ehci_pooled_def Let_def)
  have "ehci_qhGet ehci_pooled =
          (Some 2, ehci_pooled\<lparr>qhs := list_remove_qh (qhs ehci_pooled) 2 [], qhPool := [],
                                 nqhs := 0\<rparr>)"
    by (simp add: ehci_qhGet_def ehci_pooled_def)
  from ehci_qhAlloc_hit [OF this] obtain e1' where b: "ehci_qhAlloc ehci_pooled = (Some 2, e1')"
    by blast
  have v: "nqtds ehci_pooled = 1" "nqhs ehci_pooled = 1" "qtdPool ehci_pooled \<noteq> []"
    "qhPool ehci_pooled \<noteq> []"
    by (simp_all add: ehci_pooled_def)
  from alloc_release_counters [OF inv, of out_token 64 0 0 True 1 0 e1 2 e1'] a b v inv
  show ?thesis by auto
qed

text \<open>
  C6 as stated fails: right after \<open>ehci_init\<close> the pools are empty, the allocated
  qTD is a new one, and its release takes \<open>nqtds\<close> from 0 to 1.
\<close>

theorem alloc_release_counters_counterexample:
  "nqtds (ehci0 [True]) = 0 \<and>
   map_option nqtds (qtd_alloc_release pf0 (ehci0 [True]) out_token 64 0 0 True) = Some 1"
  by (simp add: qtd_alloc_release_def ehci_qtdAlloc_def qtdAlloc_get_def ehci_qtdGet_def
      mem_alloc_def qtdAlloc_init_def qtdsPut_one_def ehci0_def pf0_def Let_def)

section \<open>Properties of the periodic schedule\<close>

lemma qh_chain_next_cong:
  assumes "\<And>a. qh_next (qs' a) = qh_next (qs a)"
  shows "qh_chain qs' p as = qh_chain qs p as"
  by (induction as arbitrary: p) (simp_all add: assms)

lemma bandAlloc_count_chain:
  assumes "qh_chain qs p as"
  shows "bandAlloc_count qs p n = Some (n + of_nat (length as))"
  using assms
proof (induction as arbitrary: p n)
  case Nil
  then show ?case by (subst bandAlloc_count.simps) simp
next
  case (Cons a as)
  then have p: "p = Some a" and c: "qh_chain qs (qh_next (qs a)) as" by simp_all
  have "bandAlloc_count qs p n = bandAlloc_count qs (qh_next (qs a)) (n + 1)"
    using p by (subst bandAlloc_count.simps) simp
  with Cons.IH [OF c, of "n + 1"] show ?case by simp
qed

lemma linkPeriodic_find_chain:
  assumes "qh_chain qs p as"
  shows "\<exists>t. linkPeriodic_find qs p period = Some t \<and> (t = None \<longleftrightarrow> p = None) \<and>
             (\<forall>a. t = Some a \<longrightarrow> a \<in> set as)"
  using assms
proof (induction as arbitrary: p)
  case Nil
  then show ?case by (subst linkPeriodic_find.simps) simp
next
  case (Cons a as)
  then have p: "p = Some a" and c: "qh_chain qs (qh_next (qs a)) as" by simp_all
  show ?case
  proof (cases "qh_next (qs a)")
    case None
    then have "linkPeriodic_find qs p period = Some (Some a)"
      using p by (subst linkPeriodic_find.simps) simp
    with p show ?thesis by simp
  next
    case (Some b)
    show ?thesis
    proof (cases "qh_period (qs b) \<ge> period")
      case True
      then have e: "linkPeriodic_find qs p period = linkPeriodic_find qs (Some b) period"
        using p Some by (subst linkPeriodic_find.simps) simp
      from Cons.IH [OF c] Some obtain t where
        t: "linkPeriodic_find qs (Some b) period = Some t" "t \<noteq> None"
           "\<forall>a. t = Some a \<longrightarrow> a \<in> set as"
        by auto
      with e p show ?thesis by auto
    next
      case False
      then have "linkPeriodic_find qs p period = Some (Some a)"
        using p Some by (subst linkPeriodic_find.simps) simp
      with p show ?thesis by simp
    qed
  qed
qed

text \<open>The slot loop ends when the period is positive and the indices stay small.\<close>

lemma linkPeriodic_slots_total:
  assumes "0 < period" and "EHCI_PERIODIC_SIZE pf + period < 2 ^ 31"
  shows "\<exists>r. linkPeriodic_slots pf qh period i nodes flist = Some r"
proof (induction "EHCI_PERIODIC_SIZE pf - i" arbitrary: i nodes flist rule: less_induct)
  case less
  show ?case
  proof (cases "i < EHCI_PERIODIC_SIZE pf")
    case True
    have "EHCI_PERIODIC_SIZE pf - (i + period) < EHCI_PERIODIC_SIZE pf - i"
      using True assms(1) by simp
    from less [OF this] obtain r where
      "linkPeriodic_slots pf qh period (i + period) (nodes[i := Some qh])
         (flist[i := QH_PTR pf (Some qh)]) = Some r" by blast
    moreover have "\<not> (period = 0 \<or> i + period \<ge> 2 ^ 31)" using True assms by simp
    ultimately show ?thesis using True
      by (subst linkPeriodic_slots.simps) (simp del: One_nat_def)
  next
    case False
    then show ?thesis by (subst linkPeriodic_slots.simps) simp
  qed
qed

lemma linkPeriodic_first_fields:
  assumes "linkPeriodic_first pf e qh = Some e'"
  shows "qh_info1 (qhs e' x) = qh_info1 (qhs e x) \<and> qh_period (qhs e' x) = qh_period (qhs e x)"
  using assms
  by (auto simp: linkPeriodic_first_def Let_def split: option.splits)

lemma linkPeriodic_inside_fields:
  "qh_info1 (qhs (linkPeriodic_inside pf e qh a) x) = qh_info1 (qhs e x) \<and>
   qh_period (qhs (linkPeriodic_inside pf e qh a) x) = qh_period (qhs e x)"
  by (simp add: linkPeriodic_inside_def Let_def)

lemma linkPeriodic_last_fields:
  "qh_info1 (qhs (linkPeriodic_last e qh) x) = qh_info1 (qhs e x) \<and>
   qh_period (qhs (linkPeriodic_last e qh) x) = qh_period (qhs e x)"
  by (simp add: linkPeriodic_last_def)

lemma linkPeriodic_first_total:
  assumes "0 < unat (qh_period (qhs e qh))"
    and "EHCI_PERIODIC_SIZE pf + unat (qh_period (qhs e qh)) < 2 ^ 31"
  shows "\<exists>e'. linkPeriodic_first pf e qh = Some e'"
proof -
  let ?e1 = "e\<lparr>qhs := (qhs e)(qh := (qhs e qh)
                \<lparr>qh_next := periodicNodes e ! unat (qh_phase (qhs e qh))\<rparr>)\<rparr>"
  have p: "qh_period (qhs ?e1 qh) = qh_period (qhs e qh)" by simp
  from linkPeriodic_slots_total [OF assms, of qh "unat (qh_phase (qhs e qh))"
      "periodicNodes ?e1" "periodicList ?e1"]
  obtain r where "linkPeriodic_slots pf qh (unat (qh_period (qhs e qh)))
      (unat (qh_phase (qhs e qh))) (periodicNodes ?e1) (periodicList ?e1) = Some r" by blast
  then show ?thesis
    unfolding linkPeriodic_first_def Let_def p by (cases r) simp
qed

lemma bandAlloc_phase_period_one:
  assumes "qh_chain (qhs e) (periodicNodes e ! 0) as" and "0 < EHCI_PERIODIC_SIZE pf"
  shows "bandAlloc_phase pf e 1 0 best 0 = Some 0"
proof -
  have stop: "bandAlloc_phase pf e 1 (Suc 0) b 0 = Some 0" for b
    by (subst bandAlloc_phase.simps) simp
  from bandAlloc_count_chain [OF assms(1), of 0]
  have "bandAlloc_count (qhs e) (periodicNodes e ! 0) 0 = Some (of_nat (length as))" by simp
  then show ?thesis
    using assms(2) by (subst bandAlloc_phase.simps) (simp add: stop)
qed

lemma ehci_bandAlloc_period_one:
  assumes "qh_period (qhs e qh) = 1"
    and "qh_chain (qhs e) (periodicNodes e ! 0) as" and "0 < EHCI_PERIODIC_SIZE pf"
  shows "ehci_bandAlloc pf e qh =
           Some (e\<lparr>qhs := (qhs e)(qh := (qhs e qh)\<lparr>qh_phase := 0, qh_uframe := 0xff\<rparr>)\<rparr>)"
  using bandAlloc_phase_period_one [OF assms(2,3), of "- 1"] assms(1)
  by (simp add: ehci_bandAlloc_def)

text \<open>
  A QH with a period of one frame: band allocation takes phase 0 and no microframe,
  and linking sets the S-mask to every microframe.
\<close>

lemma ehci_qhLinkPeriodic_period_one:
  assumes per: "qh_period (qhs e qh) = 1"
    and ch: "qh_chain (qhs e) (periodicNodes e ! 0) as"
    and n0: "0 < EHCI_PERIODIC_SIZE pf" and n1: "EHCI_PERIODIC_SIZE pf \<le> 1024"
  shows "\<exists>e'. ehci_qhLinkPeriodic pf e qh = Some e' \<and>
              qh_info1 (qhs e' qh) = QH_SMASK OR QH_CMASK \<and> qh_period (qhs e' qh) = 1"
proof -
  define e1 where "e1 = e\<lparr>qhs := (qhs e)(qh := (qhs e qh)\<lparr>qh_phase := 0, qh_uframe := 0xff\<rparr>)\<rparr>"
  define e2 where "e2 = linkPeriodic_masks e1 qh"
  have b: "ehci_bandAlloc pf e qh = Some e1"
    unfolding e1_def by (rule ehci_bandAlloc_period_one [OF per ch n0])
  have f: "qh_info1 (qhs e2 qh) = QH_SMASK OR QH_CMASK" "qh_period (qhs e2 qh) = 1"
    "unat (qh_phase (qhs e2 qh)) = 0" "periodicNodes e2 = periodicNodes e"
    using per by (simp_all add: e2_def e1_def linkPeriodic_masks_def)
  have "qh_chain (qhs e2) (periodicNodes e ! 0) as = qh_chain (qhs e) (periodicNodes e ! 0) as"
    by (rule qh_chain_next_cong) (simp add: e2_def e1_def linkPeriodic_masks_def)
  with ch have ch2: "qh_chain (qhs e2) (periodicNodes e ! 0) as" by simp
  from linkPeriodic_find_chain [OF ch2, of 1] obtain t where
    t: "linkPeriodic_find (qhs e2) (periodicNodes e ! 0) 1 = Some t" by blast
  have tot: "\<exists>e'. linkPeriodic_first pf e2 qh = Some e'"
    using n1 by (intro linkPeriodic_first_total) (simp_all add: f)
  define r where "r = (case t of
                          None \<Rightarrow> linkPeriodic_first pf e2 qh
                        | Some a \<Rightarrow>
                            if qh_period (qhs e2 a) < qh_period (qhs e2 qh)
                            then linkPeriodic_first pf e2 qh
                            else Some (linkPeriodic_inside pf e2 qh a))"
  have "\<exists>e3. r = Some e3 \<and> qh_info1 (qhs e3 qh) = qh_info1 (qhs e2 qh) \<and>
             qh_period (qhs e3 qh) = qh_period (qhs e2 qh)"
  proof (cases "r = linkPeriodic_first pf e2 qh")
    case True
    with tot obtain e3 where "r = Some e3" "linkPeriodic_first pf e2 qh = Some e3" by auto
    with linkPeriodic_first_fields [of pf e2 qh e3 qh] show ?thesis by simp
  next
    case False
    then obtain a where "r = Some (linkPeriodic_inside pf e2 qh a)"
      unfolding r_def by (cases t) (auto split: if_splits)
    with linkPeriodic_inside_fields [of pf e2 qh a qh] show ?thesis by simp
  qed
  then obtain e3 where e3: "r = Some e3" "qh_info1 (qhs e3 qh) = qh_info1 (qhs e2 qh)"
    "qh_period (qhs e3 qh) = qh_period (qhs e2 qh)" by blast
  have "ehci_qhLinkPeriodic pf e qh = Some (linkPeriodic_last e3 qh)"
    using b t e3(1) [unfolded r_def]
    by (simp add: ehci_qhLinkPeriodic_def Let_def e2_def [symmetric] f)
  with e3 f linkPeriodic_last_fields [of e3 qh qh] show ?thesis by simp
qed

lemma smask_all_microframes:
  assumes "qh_info1 h = QH_SMASK OR QH_CMASK"
  shows "qh_smask h = 0xff" and "smask_bits h = 8"
proof -
  show s: "qh_smask h = 0xff"
    using assms by (simp add: qh_smask_def QH_SMASK_def QH_CMASK_def)
  show "smask_bits h = 8"
    unfolding smask_bits_def s by simp
qed

lemma ehci_qhConf_high_speed_period:
  assumes "dev_speed pipe = usb_high_speed" and "pipe_type pipe = usb_transfer_interrupt"
    and "interval pipe = 4 \<or> interval pipe = 1"
  shows "\<exists>h. ehci_qhConf h0 pipe = Some h \<and> qh_period h = 1 \<and> qh_next h = qh_next h0"
  using assms by (auto simp: ehci_qhConf_def Let_def)

text \<open>
  C3 (as amended). For a high-speed interrupt pipe with \<open>bInterval\<close> 4 or 1, QH
  configuration gives a period of one frame, and linking into the periodic schedule
  (band allocation included) returns with the S-mask \<open>0xff\<close>: all eight microframe
  bits set, for \<open>bInterval\<close> 4 as for 1. The chain of slot 0 ends, and the frame
  list has between 1 and 1024 slots.
\<close>

theorem hs_interrupt_period_smask:
  assumes "dev_speed pipe = usb_high_speed" and "pipe_type pipe = usb_transfer_interrupt"
    and "interval pipe = 4 \<or> interval pipe = 1"
    and "qh_chain (qhs e) (periodicNodes e ! 0) as"
    and "0 < EHCI_PERIODIC_SIZE pf" and "EHCI_PERIODIC_SIZE pf \<le> 1024"
  shows "\<exists>h e'. ehci_qhConf (qhs e qh) pipe = Some h \<and> qh_period h = 1 \<and>
           ehci_qhLinkPeriodic pf (e\<lparr>qhs := (qhs e)(qh := h)\<rparr>) qh = Some e' \<and>
           qh_period (qhs e' qh) = 1 \<and> qh_smask (qhs e' qh) = 0xff \<and>
           smask_bits (qhs e' qh) = 8"
proof -
  from ehci_qhConf_high_speed_period [OF assms(1-3), of "qhs e qh"] obtain h where
    h: "ehci_qhConf (qhs e qh) pipe = Some h" "qh_period h = 1" "qh_next h = qh_next (qhs e qh)"
    by blast
  let ?e = "e\<lparr>qhs := (qhs e)(qh := h)\<rparr>"
  have "qh_chain (qhs ?e) (periodicNodes e ! 0) as = qh_chain (qhs e) (periodicNodes e ! 0) as"
    by (rule qh_chain_next_cong) (simp add: h(3))
  with assms(4) have ch: "qh_chain (qhs ?e) (periodicNodes ?e ! 0) as" by simp
  have per: "qh_period (qhs ?e qh) = 1" using h(2) by simp
  from ehci_qhLinkPeriodic_period_one [OF per ch assms(5,6)] obtain e' where
    e': "ehci_qhLinkPeriodic pf ?e qh = Some e'" "qh_info1 (qhs e' qh) = QH_SMASK OR QH_CMASK"
      "qh_period (qhs e' qh) = 1" by blast
  from h e' smask_all_microframes [OF e'(2)] show ?thesis by blast
qed

text \<open>Witness for C3: the first interrupt pipe of a fresh controller, \<open>bInterval\<close> 4.\<close>

theorem hs_interrupt_period_smask_witness:
  "dev_speed (intr_pipe usb_high_speed 4) = usb_high_speed \<and>
   pipe_type (intr_pipe usb_high_speed 4) = usb_transfer_interrupt \<and>
   (interval (intr_pipe usb_high_speed 4) = 4 \<or> interval (intr_pipe usb_high_speed 4) = 1) \<and>
   qh_chain (qhs (ehci0 [])) (periodicNodes (ehci0 []) ! 0) [] \<and>
   0 < EHCI_PERIODIC_SIZE pf0 \<and> EHCI_PERIODIC_SIZE pf0 \<le> 1024 \<and>
   (\<exists>h e'. ehci_qhConf (qhs (ehci0 []) 1) (intr_pipe usb_high_speed 4) = Some h \<and>
      qh_period h = 1 \<and>
      ehci_qhLinkPeriodic pf0 ((ehci0 [])\<lparr>qhs := (qhs (ehci0 []))(1 := h)\<rparr>) 1 = Some e' \<and>
      qh_smask (qhs e' 1) = 0xff \<and> smask_bits (qhs e' 1) = 8)"
proof -
  have h: "dev_speed (intr_pipe usb_high_speed 4) = usb_high_speed"
    "pipe_type (intr_pipe usb_high_speed 4) = usb_transfer_interrupt"
    "interval (intr_pipe usb_high_speed 4) = 4 \<or> interval (intr_pipe usb_high_speed 4) = 1"
    by (simp_all add: intr_pipe_def)
  have c: "qh_chain (qhs (ehci0 [])) (periodicNodes (ehci0 []) ! 0) []"
    by (simp add: ehci0_def)
  have n: "0 < EHCI_PERIODIC_SIZE pf0" "EHCI_PERIODIC_SIZE pf0 \<le> 1024"
    by (simp_all add: pf0_def)
  from hs_interrupt_period_smask [OF h c n, of 1] h c n show ?thesis by blast
qed

text \<open>
  C3 as stated fails: for \<open>bInterval\<close> 4 the period is one frame, and with a period
  of one frame the S-mask has eight microframe bits set, not exactly one.
\<close>

theorem hs_interrupt_single_microframe_counterexample:
  "map_option qh_period (hs_intr_qh 4) = Some 1 \<and> map_option smask_bits (hs_intr_qh 4) = Some 8"
proof -
  obtain h where h: "ehci_qhConf reset_qh (intr_pipe usb_high_speed 4) = Some h" "qh_period h = 1"
    by (simp add: ehci_qhConf_def intr_pipe_def Let_def)
  let ?e = "(ehci0 [])\<lparr>qhs := (qhs (ehci0 []))(1 := h)\<rparr>"
  have per: "qh_period (qhs ?e 1) = 1" using h(2) by simp
  have ch: "qh_chain (qhs ?e) (periodicNodes ?e ! 0) []" by (simp add: ehci0_def)
  have n: "0 < EHCI_PERIODIC_SIZE pf0" "EHCI_PERIODIC_SIZE pf0 \<le> 1024"
    by (simp_all add: pf0_def)
  from ehci_qhLinkPeriodic_period_one [OF per ch n] obtain e' where
    e': "ehci_qhLinkPeriodic pf0 ?e 1 = Some e'" "qh_info1 (qhs e' 1) = QH_SMASK OR QH_CMASK"
      "qh_period (qhs e' 1) = 1" by blast
  have "hs_intr_qh 4 = Some (qhs e' 1)"
    using h(1) e'(1) by (simp add: hs_intr_qh_def)
  with e'(3) smask_all_microframes(2) [OF e'(2)] show ?thesis by simp
qed

section \<open>Properties of the transfer submission\<close>

lemma same_qh_side_refl: "same_qh_side e e"
  by (simp add: same_qh_side_def)

lemma same_qh_side_trans: "same_qh_side e e1 \<Longrightarrow> same_qh_side e1 e2 \<Longrightarrow> same_qh_side e e2"
  by (simp add: same_qh_side_def)

lemma same_qh_side_pool_inv:
  assumes "same_qh_side e e'" and "qtdPool e' = qtdPool e" and "nqtds e' = nqtds e"
  shows "pool_inv pf e' = pool_inv pf e"
  using assms by (simp add: same_qh_side_def pool_inv_def)

text \<open>
  A call of \<open>ehci_qtdAlloc\<close> touches no QH and keeps the pools as the driver keeps
  them; when it returns \<open>NULL\<close> the pool of qTDs is empty.
\<close>

lemma qtdAlloc_get_side:
  assumes "qtdAlloc_get pf e = (r, e')"
  shows "same_qh_side e e' \<and> (pool_inv pf e \<longrightarrow> pool_inv pf e') \<and> (r = None \<longrightarrow> qtdPool e' = [])"
proof (cases "qtdPool e")
  case Nil
  then have g: "ehci_qtdGet e = (None, e)" by (simp add: ehci_qtdGet_def)
  show ?thesis
  proof (cases "mem_ok e")
    case Nil
    with g assms \<open>qtdPool e = []\<close> show ?thesis
      by (auto simp: qtdAlloc_get_def mem_alloc_def same_qh_side_def)
  next
    case (Cons ok oks)
    with g assms \<open>qtdPool e = []\<close> show ?thesis
      by (cases ok) (auto simp: qtdAlloc_get_def mem_alloc_def same_qh_side_def pool_inv_def)
  qed
next
  case (Cons a rest)
  then have "ehci_qtdGet e = (Some a, e\<lparr>qtdPool := rest, nqtds := nqtds e - 1\<rparr>)"
    by (simp add: ehci_qtdGet_def)
  with assms Cons show ?thesis
    by (auto simp: qtdAlloc_get_def same_qh_side_def pool_inv_def)
qed

lemma ehci_qtdAlloc_side:
  assumes "ehci_qtdAlloc pf e pid maxpacksz data sz datax = Some (r, sz', e')"
  shows "same_qh_side e e' \<and> (pool_inv pf e \<longrightarrow> pool_inv pf e') \<and> (r = None \<longrightarrow> qtdPool e' = [])"
proof -
  obtain g e2 where g: "qtdAlloc_get pf e = (g, e2)" by (cases "qtdAlloc_get pf e")
  note s = qtdAlloc_get_side [OF g]
  show ?thesis
  proof (cases g)
    case None
    with g assms have "e' = e2" "r = None" by (simp_all add: ehci_qtdAlloc_def)
    with s None show ?thesis by simp
  next
    case (Some q)
    with g assms obtain d where e': "e' = e2\<lparr>qtds := (qtds e2)(q := d)\<rparr>" and r: "r = Some q"
      by (auto simp: ehci_qtdAlloc_def split: option.splits)
    have "same_qh_side e2 e'" "pool_inv pf e' = pool_inv pf e2"
      unfolding e' by (simp_all add: same_qh_side_def pool_inv_def)
    with s r show ?thesis by (auto intro: same_qh_side_trans)
  qed
qed

text \<open>
  \<open>ehci_qtdAdd\<close>, by induction along its loop: the list only grows; a negative
  code is \<open>-ENOMEM\<close> and leaves the pool of qTDs empty; otherwise the code is 0
  and the list is not empty.
\<close>

lemma ehci_qtdAdd_side:
  assumes "ehci_qtdAdd pf e list token maxpacksz buf sz remaining dt = Some (c, list', e')"
  shows "same_qh_side e e' \<and> (pool_inv pf e \<longrightarrow> pool_inv pf e') \<and>
         (\<exists>new. list' = list @ new) \<and>
         (c < 0 \<longrightarrow> c = - ENOMEM \<and> qtdPool e' = []) \<and> (\<not> c < 0 \<longrightarrow> c = 0 \<and> list' \<noteq> [])"
  using assms
proof (induction pf e list token maxpacksz buf sz remaining dt rule: ehci_qtdAdd.induct)
  case (1 pf e list token maxpacksz buf sz remaining dt)
  from "1.prems" obtain r rem' e1 where
    a: "ehci_qtdAlloc pf e token maxpacksz (buf + sz - remaining) remaining dt = Some (r, rem', e1)"
    by (subst (asm) ehci_qtdAdd.simps) (auto split: option.splits)
  note s = ehci_qtdAlloc_side [OF a]
  show ?case
  proof (cases r)
    case None
    with a "1.prems" have "c = - ENOMEM" "list' = list" "e' = e1"
      by (subst (asm) ehci_qtdAdd.simps, simp)+
    with s None show ?thesis by (simp add: ENOMEM_def)
  next
    case (Some tmp)
    show ?thesis
    proof (cases "rem' > 0")
      case True
      with a Some "1.prems" have
        rec: "ehci_qtdAdd pf e1 (list @ [tmp]) token maxpacksz buf sz rem' (\<not> dt) = Some (c, list', e')"
        by (subst (asm) ehci_qtdAdd.simps) simp
      from "1.IH" [OF a [unfolded Some] refl refl refl True rec] s
      show ?thesis by (auto intro: same_qh_side_trans)
    next
      case False
      with a Some "1.prems" have "c = 0" "list' = list @ [tmp]" "e' = e1"
        by (subst (asm) ehci_qtdAdd.simps, simp)+
      with s show ?thesis by simp
    qed
  qed
qed

lemma transferEnqueue_setup_side:
  assumes "transferEnqueue_setup pf e t pipe = Some (c, l, e')"
  shows "same_qh_side e e' \<and> (pool_inv pf e \<longrightarrow> pool_inv pf e') \<and>
         (c < 0 \<longrightarrow> c = - ENOMEM \<and> qtdPool e' = []) \<and> (\<not> c < 0 \<longrightarrow> c = 0)"
proof (cases "t_type t = usb_transfer_control")
  case True
  with assms ehci_qtdAdd_side [of pf e "[]" setup_token "maxPacketLen pipe" "t_setup t"
      SETUP_PACKET_SIZE SETUP_PACKET_SIZE False c l e']
  show ?thesis by (simp add: transferEnqueue_setup_def)
next
  case False
  with assms show ?thesis by (simp add: transferEnqueue_setup_def same_qh_side_refl)
qed

lemma transferEnqueue_data_side:
  assumes "transferEnqueue_data pf e l0 token t pipe = Some (c, l, e')"
  shows "same_qh_side e e' \<and> (pool_inv pf e \<longrightarrow> pool_inv pf e') \<and>
         (c < 0 \<longrightarrow> c = - ENOMEM \<and> qtdPool e' = []) \<and> (\<not> c < 0 \<longrightarrow> c = 0)"
proof (cases "(t_type t = usb_transfer_control \<and> t_size t > 0) \<or> t_type t = usb_transfer_bulk
          \<or> t_type t = usb_transfer_interrupt")
  case True
  with assms have "ehci_qtdAdd pf e l0 token (maxPacketLen pipe) (t_buffer t) (t_size t)
      (t_size t) True = Some (c, l, e')"
    unfolding transferEnqueue_data_def by (simp only: if_True)
  from ehci_qtdAdd_side [OF this] show ?thesis by simp
next
  case False
  with assms have "c = 0" "e' = e"
    unfolding transferEnqueue_data_def by (simp_all only: if_False option.inject prod.inject)
  then show ?thesis by (simp add: same_qh_side_refl)
qed

lemma transferEnqueue_status_side:
  assumes "transferEnqueue_status pf e l0 token t pipe = Some (c, l, e')"
  shows "same_qh_side e e' \<and> (pool_inv pf e \<longrightarrow> pool_inv pf e') \<and>
         (c < 0 \<longrightarrow> c = - ENOMEM \<and> qtdPool e' = []) \<and> (\<not> c < 0 \<longrightarrow> c = 0)"
proof (cases "t_type t = usb_transfer_control")
  case True
  with assms ehci_qtdAdd_side [of pf e l0 "if token = in_token then out_token else in_token"
      "maxPacketLen pipe" 0 0 0 True c l e']
  show ?thesis by (simp add: transferEnqueue_status_def)
next
  case False
  with assms show ?thesis by (simp add: transferEnqueue_status_def same_qh_side_refl)
qed

text \<open>The three stages together.\<close>

lemma transferEnqueue_stages_side:
  assumes "transferEnqueue_stages pf e t pipe = Some (c, l, e')"
  shows "same_qh_side e e' \<and> (pool_inv pf e \<longrightarrow> pool_inv pf e') \<and>
         (c < 0 \<longrightarrow> c = - ENOMEM \<and> qtdPool e' = []) \<and> (\<not> c < 0 \<longrightarrow> c = 0)"
proof -
  define token where "token = (if t_direction t = usb_dir_in then in_token else out_token)"
  from assms obtain r1 l1 e1 where
    s1: "transferEnqueue_setup pf e t pipe = Some (r1, l1, e1)"
    by (auto simp: transferEnqueue_stages_def Let_def split: option.splits)
  note p1 = transferEnqueue_setup_side [OF s1]
  show ?thesis
  proof (cases "r1 < 0")
    case True
    with assms s1 have "c = r1" "l = l1" "e' = e1"
      by (simp_all add: transferEnqueue_stages_def Let_def)
    with p1 show ?thesis by simp
  next
    case n1: False
    with assms s1 obtain r2 l2 e2 where
      s2: "transferEnqueue_data pf e1 l1 token t pipe = Some (r2, l2, e2)"
      by (auto simp: transferEnqueue_stages_def Let_def token_def split: option.splits)
    note p2 = transferEnqueue_data_side [OF s2]
    show ?thesis
    proof (cases "r2 < 0")
      case True
      with assms s1 s2 n1 have "c = r2" "l = l2" "e' = e2"
        by (simp_all add: transferEnqueue_stages_def Let_def token_def)
      with p1 p2 show ?thesis by (auto intro: same_qh_side_trans)
    next
      case n2: False
      with assms s1 s2 n1 have
        s3: "transferEnqueue_status pf e2 l2 token t pipe = Some (c, l, e')"
        by (simp add: transferEnqueue_stages_def Let_def token_def)
      note p3 = transferEnqueue_status_side [OF s3]
      from p1 p2 p3 show ?thesis by (auto intro: same_qh_side_trans)
    qed
  qed
qed

text \<open>\<open>ehci_transferEnqueue\<close> past the QH of the pipe, in terms of the stages.\<close>

lemma ehci_transferEnqueue_stages:
  assumes "\<not> dev_isRoothub pipe0"
    and "transferEnqueue_qh pf (priv h) t pipe0 = Some (Some qh, e0, pipe)"
    and "transferEnqueue_stages pf e0 t pipe = Some (c, l, e)"
  shows "ehci_transferEnqueue pf h t pipe0 =
           (if c < 0 then transferEnqueue_nomem pf h e l t pipe
            else if l = [] then Some (- 1, h\<lparr>priv := e\<rparr>, t, pipe)
            else Some (0,
                   \<lparr>priv = ehci_enqueue (transferEnqueue_link e qh l (hd l)) qh (hd l) (last l),
                    transfers = transfers h @ [t\<lparr>t_hcdpriv := l\<rparr>]\<rparr>,
                   t\<lparr>t_hcdpriv := l\<rparr>, pipe))"
proof -
  define token where "token = (if t_direction t = usb_dir_in then in_token else out_token)"
  from assms(3) obtain r1 l1 e1 where
    s1: "transferEnqueue_setup pf e0 t pipe = Some (r1, l1, e1)"
    by (auto simp: transferEnqueue_stages_def Let_def split: option.splits)
  show ?thesis
  proof (cases "r1 < 0")
    case True
    with assms(3) s1 have "c = r1" "l = l1" "e = e1"
      by (simp_all add: transferEnqueue_stages_def Let_def)
    with True s1 assms(1,2) show ?thesis
      by (simp add: ehci_transferEnqueue_def Let_def)
  next
    case n1: False
    with assms(3) s1 obtain r2 l2 e2 where
      s2: "transferEnqueue_data pf e1 l1 token t pipe = Some (r2, l2, e2)"
      by (auto simp: transferEnqueue_stages_def Let_def token_def split: option.splits)
    show ?thesis
    proof (cases "r2 < 0")
      case True
      with assms(3) s1 s2 n1 have "c = r2" "l = l2" "e = e2"
        by (simp_all add: transferEnqueue_stages_def Let_def token_def)
      with True s1 s2 n1 assms(1,2) show ?thesis
        by (simp add: ehci_transferEnqueue_def Let_def token_def)
    next
      case n2: False
      with assms(3) s1 s2 n1 have
        s3: "transferEnqueue_status pf e2 l2 token t pipe = Some (c, l, e)"
        by (simp add: transferEnqueue_stages_def Let_def token_def)
      with s1 s2 n1 n2 assms(1,2) show ?thesis
        by (simp add: ehci_transferEnqueue_def Let_def token_def)
    qed
  qed
qed

text \<open>
  \<open>ehci_qtdsPut\<close>: no QH is touched; every qTD released is afterwards in the pool or
  among the destroyed descriptors; and when the pool has room for all of them they
  are appended to it in order and none is destroyed.
\<close>

lemma qtdsPut_one_side:
  assumes "qtdsPut_one pf e q = Some e'"
  shows "same_qh_side e e' \<and>
         insert q (set (qtdPool e) \<union> set (destroyed e)) \<subseteq> set (qtdPool e') \<union> set (destroyed e')"
  using assms
  by (auto simp: qtdsPut_one_def same_qh_side_def Let_def split: if_splits list.splits)

lemma ehci_qtdsPut_side:
  assumes "ehci_qtdsPut pf e l = Some e'"
  shows "same_qh_side e e' \<and>
         set l \<union> set (qtdPool e) \<union> set (destroyed e) \<subseteq> set (qtdPool e') \<union> set (destroyed e')"
  using assms
proof (induction l arbitrary: e)
  case Nil
  then show ?case by (simp add: same_qh_side_refl)
next
  case (Cons q l)
  then obtain e1 where
    e1: "qtdsPut_one pf e q = Some e1" "ehci_qtdsPut pf e1 l = Some e'"
    by (auto split: option.splits)
  from qtdsPut_one_side [OF e1(1)] Cons.IH [OF e1(2)] show ?case
    by (auto intro: same_qh_side_trans)
qed


lemma only_sched_refl: "only_sched e e"
  by (simp add: only_sched_def)

lemma only_sched_trans: "only_sched e e1 \<Longrightarrow> only_sched e1 e2 \<Longrightarrow> only_sched e e2"
  by (simp add: only_sched_def)

lemma only_sched_qhs: "only_sched e (e\<lparr>qhs := q\<rparr>)"
  by (simp add: only_sched_def)

lemma ehci_bandAlloc_only_sched:
  assumes "ehci_bandAlloc pf e qh = Some e'"
  shows "only_sched e e'"
  using assms
  by (auto simp: ehci_bandAlloc_def only_sched_def split: option.splits if_splits)

lemma linkPeriodic_first_only_sched:
  assumes "linkPeriodic_first pf e qh = Some e'"
  shows "only_sched e e'"
  using assms
  by (auto simp: linkPeriodic_first_def only_sched_def Let_def split: option.splits)

lemma ehci_qhLinkPeriodic_only_sched:
  assumes "ehci_qhLinkPeriodic pf e qh = Some e'"
  shows "only_sched e e'"
proof -
  from assms obtain e1 where b: "ehci_bandAlloc pf e qh = Some e1"
    by (auto simp: ehci_qhLinkPeriodic_def split: option.splits)
  define e2 where "e2 = linkPeriodic_masks e1 qh"
  have m: "only_sched e1 e2" by (simp add: e2_def linkPeriodic_masks_def only_sched_def)
  from assms b obtain e3 where
    e3: "linkPeriodic_first pf e2 qh = Some e3 \<or> (\<exists>a. e3 = linkPeriodic_inside pf e2 qh a)"
    and l: "e' = linkPeriodic_last e3 qh"
    by (auto simp: ehci_qhLinkPeriodic_def Let_def e2_def split: option.splits if_splits)
  have "only_sched e2 e3"
    using e3 linkPeriodic_first_only_sched [of pf e2 qh e3]
    by (auto simp: linkPeriodic_inside_def only_sched_def Let_def)
  moreover have "only_sched e3 e'"
    unfolding l by (simp add: linkPeriodic_last_def only_sched_def)
  ultimately show ?thesis
    using ehci_bandAlloc_only_sched [OF b] m by (blast intro: only_sched_trans)
qed

lemma ehci_qhLinkAsync_only_sched:
  assumes "ehci_qhLinkAsync pf e qh = Some e'"
  shows "only_sched e e'"
  using assms
  by (auto simp: ehci_qhLinkAsync_def only_sched_def Let_def split: option.splits)

lemma ehci_qhAlloc_side:
  assumes "ehci_qhAlloc e = (r, e')"
  shows "same_qtd_side e e' \<and> destroyed e' = destroyed e \<and> (pool_inv pf e \<longrightarrow> pool_inv pf e')"
proof (cases "qhPool e")
  case Nil
  then have g: "ehci_qhGet e = (None, e)" by (simp add: ehci_qhGet_def)
  show ?thesis
  proof (cases "mem_ok e")
    case Nil
    with g assms show ?thesis
      by (auto simp: ehci_qhAlloc_def mem_alloc_def same_qtd_side_def)
  next
    case (Cons ok oks)
    with g assms \<open>qhPool e = []\<close> show ?thesis
      by (cases ok)
        (auto simp: ehci_qhAlloc_def mem_alloc_def same_qtd_side_def pool_inv_def Let_def
          split: prod.splits)
  qed
next
  case (Cons a rest)
  then have "ehci_qhGet e =
      (Some a, e\<lparr>qhs := list_remove_qh (qhs e) a rest, qhPool := rest, nqhs := nqhs e - 1\<rparr>)"
    by (simp add: ehci_qhGet_def)
  with assms Cons show ?thesis
    by (auto simp: ehci_qhAlloc_def same_qtd_side_def pool_inv_def Let_def split: prod.splits)
qed

text \<open>
  The first part of \<open>ehci_transferEnqueue\<close> touches no qTD, destroys nothing and
  keeps the pools as the driver keeps them; a pipe without a QH gets the new one.
\<close>

lemma transferEnqueue_qh_side:
  assumes "transferEnqueue_qh pf e t pipe = Some (r, e0, pipe')"
  shows "same_qtd_side e e0 \<and> destroyed e0 = destroyed e \<and> (pool_inv pf e \<longrightarrow> pool_inv pf e0) \<and>
         (pipe_hcdpriv pipe = None \<and> r \<noteq> None \<longrightarrow> pipe_hcdpriv pipe' = r) \<and>
         (pipe_hcdpriv pipe \<noteq> None \<longrightarrow> pipe' = pipe \<and> r = pipe_hcdpriv pipe)"
proof (cases "pipe_hcdpriv pipe")
  case (Some qh)
  with assms show ?thesis
    by (auto simp: transferEnqueue_qh_def same_qtd_side_def pool_inv_def Let_def)
next
  case None
  obtain a e1 where al: "ehci_qhAlloc e = (a, e1)" by (cases "ehci_qhAlloc e")
  note s = ehci_qhAlloc_side [OF al, of pf]
  show ?thesis
  proof (cases a)
    case n: None
    with None al assms have "e0 = e1" "r = None"
      by (simp_all add: transferEnqueue_qh_def)
    with s None show ?thesis by simp
  next
    case (Some qh)
    with None al assms obtain h where
      c: "ehci_qhConf (qhs e1 qh) pipe = Some h"
      by (auto simp: transferEnqueue_qh_def split: option.splits)
    let ?e = "e1\<lparr>qhs := (qhs e1)(qh := h)\<rparr>"
    from None al Some c assms have
      l: "(if t_type t = usb_transfer_bulk \<or> t_type t = usb_transfer_control
           then ehci_qhLinkAsync pf ?e qh else ehci_qhLinkPeriodic pf ?e qh) = Some e0"
      and r: "r = Some qh" "pipe' = pipe\<lparr>pipe_hcdpriv := Some qh\<rparr>"
      by (auto simp: transferEnqueue_qh_def split: option.splits)
    have "only_sched ?e e0"
      using l ehci_qhLinkAsync_only_sched [of pf ?e qh e0]
        ehci_qhLinkPeriodic_only_sched [of pf ?e qh e0]
      by (auto split: if_splits)
    then have "only_sched e1 e0"
      using only_sched_qhs [of e1 "(qhs e1)(qh := h)"] by (blast intro: only_sched_trans)
    with s r None show ?thesis
      by (auto simp: only_sched_def same_qtd_side_def pool_inv_def)
  qed
qed


lemma enqueue_alloc_failure_example:
  "\<exists>e0 pipe e. transferEnqueue_qh pf0 (priv (hcd0 [True, True, False])) ctrl_in ctrl_pipe
                 = Some (Some 1, e0, pipe) \<and>
               transferEnqueue_stages pf0 e0 ctrl_in pipe = Some (- ENOMEM, [2], e)"
  by (simp add: transferEnqueue_qh_def ehci_qhAlloc_def ehci_qhGet_def mem_alloc_def
        ehci_qhConf_def ehci_qhLinkAsync_def hcd0_def ehci0_def ctrl_pipe_def ctrl_in_def
        Let_def qtdAlloc_zero.simps EHCI_QH_NBUFS_def reset_qh_def
        transferEnqueue_stages_def transferEnqueue_setup_def transferEnqueue_data_def
        ehci_qtdAdd.simps ehci_qtdAlloc_def qtdAlloc_get_def ehci_qtdGet_def qtdAlloc_init_def
        qtdAlloc_pages.simps pf0_def QTD_OFFSET_def EHCI_PAGE_SIZE_def SETUP_PACKET_SIZE_def ENOMEM_def
        split: prod.splits)



lemma ehci_qhLinkAsync_linked:
  assumes "ehci_qhLinkAsync pf e qh = Some e'"
  shows "\<exists>a. asyncList e' = Some a \<and> qh_next (qhs e' a) = Some qh \<and>
             qh_horizontal (qhs e' a) = QH_PTR pf (Some qh)"
  using assms
  by (auto simp: ehci_qhLinkAsync_def Let_def split: option.splits)

text \<open>
  C10. A submission on a pipe without a QH that fails after the QH was allocated
  (an \<open>ehci_qtdAdd\<close> fails, or no qTD was built) returns a negative code with
  \<open>pipe->hcdpriv\<close> pointing to the new QH; the store of the QHs, the pool of QHs and
  both schedules are as linking left them, so the QH is neither unlinked nor
  released (on the asynchronous ring it is still the successor of the head, whose
  horizontal pointer points to it); only the qTDs built went through
  \<open>ehci_qtdsPut\<close>, and the in-flight list is unchanged.
\<close>

theorem enqueue_failure_keeps_qh:
  assumes "\<not> dev_isRoothub pipe0" and "pool_inv pf (priv h)" and "pipe_hcdpriv pipe0 = None"
    and "transferEnqueue_qh pf (priv h) t pipe0 = Some (Some qh, e0, pipe)"
    and "transferEnqueue_stages pf e0 t pipe = Some (c, built, e)" and "c < 0 \<or> built = []"
  shows "\<exists>r h' t'. ehci_transferEnqueue pf h t pipe0 = Some (r, h', t', pipe) \<and> r < 0 \<and>
           pipe_hcdpriv pipe = Some qh \<and> same_qh_side e0 (priv h') \<and>
           transfers h' = transfers h \<and>
           (c < 0 \<longrightarrow> ehci_qtdsPut pf e built = Some (priv h')) \<and>
           (\<not> c < 0 \<longrightarrow> priv h' = e) \<and>
           (t_type t = usb_transfer_bulk \<or> t_type t = usb_transfer_control \<longrightarrow>
              (\<exists>a. asyncList (priv h') = Some a \<and> qh_next (qhs (priv h') a) = Some qh \<and>
                    qh_horizontal (qhs (priv h') a) = QH_PTR pf (Some qh)))"
proof -
  note qs = transferEnqueue_qh_side [OF assms(4)]
  from qs assms(2,3) have inv0: "pool_inv pf e0" and pq: "pipe_hcdpriv pipe = Some qh" by simp_all
  note ss = transferEnqueue_stages_side [OF assms(5)]
  from ss inv0 have inv: "pool_inv pf e" and side: "same_qh_side e0 e" by simp_all
  have "\<exists>r h'. ehci_transferEnqueue pf h t pipe0 = Some (r, h', (if c < 0 then t\<lparr>t_hcdpriv := []\<rparr> else t), pipe) \<and>
          r < 0 \<and> same_qh_side e0 (priv h') \<and> transfers h' = transfers h \<and>
          (c < 0 \<longrightarrow> ehci_qtdsPut pf e built = Some (priv h')) \<and> (\<not> c < 0 \<longrightarrow> priv h' = e)"
  proof (cases "c < 0")
    case True
    from ehci_qtdsPut_inv [OF inv, of built] obtain e' where
      put: "ehci_qtdsPut pf e built = Some e'" by blast
    from ehci_qtdsPut_side [OF put] side have "same_qh_side e0 e'"
      by (blast intro: same_qh_side_trans)
    moreover have "ehci_transferEnqueue pf h t pipe0
                     = Some (- ENOMEM, h\<lparr>priv := e'\<rparr>, t\<lparr>t_hcdpriv := []\<rparr>, pipe)"
      using ehci_transferEnqueue_stages [OF assms(1,4,5)] True put
      by (simp add: transferEnqueue_nomem_def)
    ultimately show ?thesis using True put by (simp add: ENOMEM_def)
  next
    case False
    with assms(6) have "built = []" by simp
    with False ehci_transferEnqueue_stages [OF assms(1,4,5)] side show ?thesis by simp
  qed
  then obtain r h' where
    run: "ehci_transferEnqueue pf h t pipe0
            = Some (r, h', (if c < 0 then t\<lparr>t_hcdpriv := []\<rparr> else t), pipe)"
    and p: "r < 0" "same_qh_side e0 (priv h')" "transfers h' = transfers h"
      "c < 0 \<longrightarrow> ehci_qtdsPut pf e built = Some (priv h')" "\<not> c < 0 \<longrightarrow> priv h' = e"
    by blast
  have async: "t_type t = usb_transfer_bulk \<or> t_type t = usb_transfer_control \<longrightarrow>
      (\<exists>a. asyncList (priv h') = Some a \<and> qh_next (qhs (priv h') a) = Some qh \<and>
            qh_horizontal (qhs (priv h') a) = QH_PTR pf (Some qh))"
  proof
    assume ty: "t_type t = usb_transfer_bulk \<or> t_type t = usb_transfer_control"
    from assms(3,4) ty obtain e1 where "ehci_qhLinkAsync pf e1 qh = Some e0"
      by (auto simp: transferEnqueue_qh_def split: option.splits prod.splits)
    from ehci_qhLinkAsync_linked [OF this] p(2)
    show "\<exists>a. asyncList (priv h') = Some a \<and> qh_next (qhs (priv h') a) = Some qh \<and>
            qh_horizontal (qhs (priv h') a) = QH_PTR pf (Some qh)"
      by (simp add: same_qh_side_def)
  qed
  from run p pq async show ?thesis by blast
qed

text \<open>Witness for C10: the control transfer whose data qTD cannot be allocated.\<close>

theorem enqueue_failure_keeps_qh_witness:
  "\<not> dev_isRoothub ctrl_pipe \<and> pool_inv pf0 (priv (hcd0 [True, True, False])) \<and>
   pipe_hcdpriv ctrl_pipe = None \<and>
   (\<exists>e0 pipe e. transferEnqueue_qh pf0 (priv (hcd0 [True, True, False])) ctrl_in ctrl_pipe
                   = Some (Some 1, e0, pipe) \<and>
      transferEnqueue_stages pf0 e0 ctrl_in pipe = Some (- ENOMEM, [2], e) \<and>
      (- ENOMEM < 0 \<or> [2::nat] = []) \<and>
      (\<exists>r h' t'. ehci_transferEnqueue pf0 (hcd0 [True, True, False]) ctrl_in ctrl_pipe
                    = Some (r, h', t', pipe) \<and> r < 0 \<and> pipe_hcdpriv pipe = Some 1 \<and>
                  same_qh_side e0 (priv h') \<and>
                  qh_next (qhs (priv h') 0) = Some 1))"
proof -
  have nr: "\<not> dev_isRoothub ctrl_pipe" "pipe_hcdpriv ctrl_pipe = None"
    by (simp_all add: ctrl_pipe_def)
  have inv: "pool_inv pf0 (priv (hcd0 [True, True, False]))"
    by (simp add: pool_inv_def hcd0_def ehci0_def pf0_def)
  have neg: "- ENOMEM < 0 \<or> [2::nat] = []" by (simp add: ENOMEM_def)
  have ty: "t_type ctrl_in = usb_transfer_bulk \<or> t_type ctrl_in = usb_transfer_control"
    by (simp add: ctrl_in_def)
  from enqueue_alloc_failure_example obtain e0 pipe e where
    q: "transferEnqueue_qh pf0 (priv (hcd0 [True, True, False])) ctrl_in ctrl_pipe
          = Some (Some 1, e0, pipe)"
    and s: "transferEnqueue_stages pf0 e0 ctrl_in pipe = Some (- ENOMEM, [2], e)"
    by blast
  have a0: "asyncList e0 = Some 0"
    using q
    by (auto simp: transferEnqueue_qh_def ehci_qhAlloc_def ehci_qhGet_def mem_alloc_def
        ehci_qhLinkAsync_def hcd0_def ehci0_def ctrl_pipe_def ctrl_in_def Let_def
        split: prod.splits option.splits)
  from enqueue_failure_keeps_qh [OF nr(1) inv nr(2) q s neg] ty obtain r h' t' where
    "ehci_transferEnqueue pf0 (hcd0 [True, True, False]) ctrl_in ctrl_pipe = Some (r, h', t', pipe)"
    "r < 0" "pipe_hcdpriv pipe = Some 1" "same_qh_side e0 (priv h')"
    "\<exists>a. asyncList (priv h') = Some a \<and> qh_next (qhs (priv h') a) = Some 1"
    by blast
  moreover from this a0 have "qh_next (qhs (priv h') 0) = Some 1"
    by (auto simp: same_qh_side_def)
  ultimately show ?thesis using nr inv neg q s by blast
qed

lemma transferEnqueue_qh_existing:
  assumes "pipe_hcdpriv pipe = Some qh"
  shows "\<exists>e0. transferEnqueue_qh pf e t pipe = Some (Some qh, e0, pipe) \<and>
              qh_lastQtd (qhs e0 qh) = qh_lastQtd (qhs e qh) \<and>
              qh_nextQtd (qhs e0 qh) = qh_nextQtd (qhs e qh)"
proof -
  define h1 where "h1 = (if QH_DEVADDR (qh_info0 (qhs e qh)) \<noteq> dev_address pipe
                     then (qhs e qh)\<lparr>qh_info0 := (qh_info0 (qhs e qh) AND NOT 0x7f) OR dev_address pipe\<rparr>
                     else qhs e qh)"
  define h2 where "h2 = (if QH_PACKLEN (qh_info0 h1) \<noteq> maxPacketLen pipe
                     then h1\<lparr>qh_info0 := (qh_info0 h1 AND NOT (push_bit 16 0x7ff))
                                             OR push_bit 16 (maxPacketLen pipe)\<rparr>
                     else h1)"
  have "transferEnqueue_qh pf e t pipe = Some (Some qh, e\<lparr>qhs := (qhs e)(qh := h2)\<rparr>, pipe)"
    unfolding transferEnqueue_qh_def h2_def h1_def Let_def using assms by (simp only: option.case)
  moreover have "qh_lastQtd h1 = qh_lastQtd (qhs e qh)" "qh_nextQtd h1 = qh_nextQtd (qhs e qh)"
    by (simp_all add: h1_def)
  then have "qh_lastQtd h2 = qh_lastQtd (qhs e qh)" "qh_nextQtd h2 = qh_nextQtd (qhs e qh)"
    by (simp_all add: h2_def)
  ultimately show ?thesis by simp
qed

lemma transferEnqueue_stages_none:
  assumes "t_type t = usb_transfer_isochronous"
  shows "transferEnqueue_stages pf e t pipe = Some (0, [], e)"
  using assms
  by (simp add: transferEnqueue_stages_def transferEnqueue_setup_def transferEnqueue_data_def
      transferEnqueue_status_def)

text \<open>
  A transfer of size zero: \<open>ehci_qtdAdd\<close> is a do-while loop, so it builds one
  qTD before it tests what remains. That qTD has the byte count 0.
\<close>

lemma qtdAlloc_get_some:
  assumes "qtdPool e \<noteq> [] \<or> (\<exists>oks. mem_ok e = True # oks)"
  shows "\<exists>q e2. qtdAlloc_get pf e = (Some q, e2) \<and> qhs e2 = qhs e"
proof (cases "qtdPool e")
  case (Cons a rest)
  then show ?thesis by (simp add: qtdAlloc_get_def ehci_qtdGet_def)
next
  case Nil
  with assms obtain oks where "mem_ok e = True # oks" by auto
  with Nil show ?thesis by (simp add: qtdAlloc_get_def ehci_qtdGet_def mem_alloc_def)
qed

lemma qtdAlloc_pages_done:
  "qtdAlloc_pages pf maxpacksz sz i sz data buf buf_hi = Some (i, sz, buf, buf_hi)"
  by (subst qtdAlloc_pages.simps) simp

lemma qtdAlloc_init_zero:
  "\<exists>d. qtdAlloc_init pf d0 pid maxpacksz data 0 datax = Some (d, 0) \<and>
       qtd_token d = push_bit 31 (of_bool datax) OR push_bit 8 (pid_code pid)
                       OR push_bit 10 EHCI_TRANS_ERRORS OR QTD_ACTIVE"
proof (cases "data = 0")
  case True
  then show ?thesis by (simp add: qtdAlloc_init_def)
next
  case False
  have m: "min (EHCI_PAGE_SIZE - QTD_OFFSET (va2pa pf data)) (0 :: u32) = 0"
    by (simp add: min_def)
  obtain b bh where z: "qtdAlloc_zero (Suc 0) ((qtd_buf d0)[0 := va2pa pf data])
                          ((qtd_buf_hi d0)[0 := 0]) = (b, bh)"
    by (cases "qtdAlloc_zero (Suc 0) ((qtd_buf d0)[0 := va2pa pf data])
                 ((qtd_buf_hi d0)[0 := 0])")
  from False show ?thesis
    by (simp add: qtdAlloc_init_def Let_def m qtdAlloc_pages_done z)
qed

lemma ehci_qtdAdd_zero:
  assumes "qtdAlloc_get pf e = (Some q, e2)"
  shows "\<exists>e'. ehci_qtdAdd pf e l pid maxpacksz buf 0 0 datax = Some (0, l @ [q], e') \<and>
              qhs e' = qhs e2 \<and>
              qtd_token (qtds e' q) = push_bit 31 (of_bool datax) OR push_bit 8 (pid_code pid)
                                        OR push_bit 10 EHCI_TRANS_ERRORS OR QTD_ACTIVE"
proof -
  from qtdAlloc_init_zero [of pf "qtds e2 q" pid maxpacksz buf datax] obtain d where
    d: "qtdAlloc_init pf (qtds e2 q) pid maxpacksz buf 0 datax = Some (d, 0)"
       "qtd_token d = push_bit 31 (of_bool datax) OR push_bit 8 (pid_code pid)
                       OR push_bit 10 EHCI_TRANS_ERRORS OR QTD_ACTIVE" by blast
  have a: "ehci_qtdAlloc pf e pid maxpacksz buf 0 datax
             = Some (Some q, 0, e2\<lparr>qtds := (qtds e2)(q := d)\<rparr>)"
    using assms d(1) by (simp add: ehci_qtdAlloc_def)
  have "ehci_qtdAdd pf e l pid maxpacksz buf 0 0 datax
          = Some (0, l @ [q], e2\<lparr>qtds := (qtds e2)(q := d)\<rparr>)"
    by (subst ehci_qtdAdd.simps) (simp add: a)
  with d(2) show ?thesis by simp
qed

lemma transferEnqueue_stages_zero:
  assumes "t_type t = usb_transfer_bulk \<or> t_type t = usb_transfer_interrupt"
    and "t_size t = 0" and "qtdAlloc_get pf e0 = (Some q, e2)"
  shows "\<exists>e. transferEnqueue_stages pf e0 t pipe = Some (0, [q], e) \<and> qhs e = qhs e2 \<and>
             QTD_LEN (qtd_token (qtds e q) OR QTD_IOC) = 0"
proof -
  define pid where "pid = (if t_direction t = usb_dir_in then in_token else out_token)"
  from ehci_qtdAdd_zero [OF assms(3), of "[]" pid "maxPacketLen pipe" "t_buffer t" True]
  obtain e where
    e: "ehci_qtdAdd pf e0 [] pid (maxPacketLen pipe) (t_buffer t) 0 0 True = Some (0, [q], e)"
       "qhs e = qhs e2"
       "qtd_token (qtds e q) = push_bit 31 (of_bool True) OR push_bit 8 (pid_code pid)
                                 OR push_bit 10 EHCI_TRANS_ERRORS OR QTD_ACTIVE"
    by auto
  have s: "transferEnqueue_stages pf e0 t pipe = Some (0, [q], e)"
    using assms(1,2) e(1)
    by (auto simp: transferEnqueue_stages_def transferEnqueue_setup_def
        transferEnqueue_data_def transferEnqueue_status_def Let_def pid_def [symmetric])
  have "QTD_LEN (qtd_token (qtds e q) OR QTD_IOC) = 0"
    unfolding e(3)
    by (cases pid)
      (simp_all add: QTD_LEN_def QTD_IOC_def EHCI_TRANS_ERRORS_def QTD_ACTIVE_def)
  with s e(2) show ?thesis by blast
qed

lemma ehci_enqueue_token:
  "qtd_token (qtds (ehci_enqueue e qh first lastq) lastq) = qtd_token (qtds e lastq) OR QTD_IOC"
  by (simp add: ehci_enqueue_def Let_def split: option.splits)

lemma transferEnqueue_link_token:
  "qtd_token (qtds (transferEnqueue_link e qh ring first) x) = qtd_token (qtds e x)"
  by (induction ring arbitrary: e) (simp_all add: Let_def)


lemma ehci_enqueue_lastQtd:
  "qh_lastQtd (qhs (ehci_enqueue e qh first lastq) qh) = Some lastq"
  by (simp add: ehci_enqueue_def Let_def split: option.splits)

lemma zero_bulk_stages:
  "\<exists>e0 pipe e. transferEnqueue_qh pf0 (priv (hcd0 [True, True])) (bulk_out 0) bulk_pipe
                 = Some (Some 1, e0, pipe) \<and>
               transferEnqueue_stages pf0 e0 (bulk_out 0) pipe = Some (0, [2], e) \<and>
               pipe_hcdpriv pipe = Some 1 \<and> \<not> dev_isRoothub pipe"
  by (simp add: transferEnqueue_qh_def ehci_qhAlloc_def ehci_qhGet_def mem_alloc_def
        ehci_qhConf_def ehci_qhLinkAsync_def hcd0_def ehci0_def bulk_pipe_def bulk_out_def
        Let_def qtdAlloc_zero.simps EHCI_QH_NBUFS_def reset_qh_def
        transferEnqueue_stages_def transferEnqueue_setup_def transferEnqueue_data_def
        transferEnqueue_status_def
        ehci_qtdAdd.simps ehci_qtdAlloc_def qtdAlloc_get_def ehci_qtdGet_def qtdAlloc_init_def
        qtdAlloc_pages.simps pf0_def QTD_OFFSET_def EHCI_PAGE_SIZE_def
        split: prod.splits)

lemma zero_bulk_example:
  "\<exists>h t p. ehci_transferEnqueue pf0 (hcd0 [True, True]) (bulk_out 0) bulk_pipe = Some (0, h, t, p) \<and>
      t_hcdpriv t = [2] \<and> length (transfers h) = 1 \<and> pipe_hcdpriv p = Some 1 \<and>
      qh_lastQtd (qhs (priv h) 1) = Some 2 \<and> \<not> dev_isRoothub p"
proof -
  from zero_bulk_stages obtain e0 pipe e where
    q: "transferEnqueue_qh pf0 (priv (hcd0 [True, True])) (bulk_out 0) bulk_pipe
          = Some (Some 1, e0, pipe)"
    and s: "transferEnqueue_stages pf0 e0 (bulk_out 0) pipe = Some (0, [2], e)"
    and p: "pipe_hcdpriv pipe = Some 1" "\<not> dev_isRoothub pipe" by blast
  have nr: "\<not> dev_isRoothub bulk_pipe" by (simp add: bulk_pipe_def)
  have "ehci_transferEnqueue pf0 (hcd0 [True, True]) (bulk_out 0) bulk_pipe =
      Some (0, \<lparr>priv = ehci_enqueue (transferEnqueue_link e 1 [2] 2) 1 2 2,
                transfers = transfers (hcd0 [True, True]) @ [(bulk_out 0)\<lparr>t_hcdpriv := [2]\<rparr>]\<rparr>,
            (bulk_out 0)\<lparr>t_hcdpriv := [2]\<rparr>, pipe)"
    using ehci_transferEnqueue_stages [OF nr q s] by simp
  with p show ?thesis by (simp add: ehci_enqueue_lastQtd hcd0_def)
qed

lemma zero_bulk_qh:
  "\<exists>e0 pipe. transferEnqueue_qh pf0 (priv (hcd0 [True, True])) (bulk_out 0) bulk_pipe
                 = Some (Some 1, e0, pipe) \<and> mem_ok e0 = [True]"
  by (simp add: transferEnqueue_qh_def ehci_qhAlloc_def ehci_qhGet_def mem_alloc_def
        ehci_qhConf_def ehci_qhLinkAsync_def hcd0_def ehci0_def bulk_pipe_def bulk_out_def
        Let_def qtdAlloc_zero.simps EHCI_QH_NBUFS_def reset_qh_def
        split: prod.splits)

text \<open>
  C2 (as amended). Once the pipe has its QH: a transfer whose type is none of
  control, bulk and interrupt produces no qTD, and the call returns -1 with the
  transfer and the in-flight list unchanged and no qTD touched (the store, the
  pool and the counter of the qTDs are as before); on a pipe that had its QH
  already, the pending ring of that QH (\<open>lastQtd\<close>, \<open>nextQtd\<close>) is unchanged
  too. A bulk or interrupt transfer of size zero is not such a submission: when a
  qTD can be had (from the pool or from memory) the call returns 0, the ring of the
  transfer is one qTD with the byte count 0, the transfer joins the in-flight list
  and that qTD is the last one queued on the QH.
\<close>

theorem enqueue_no_qtds_rejected:
  assumes "\<not> dev_isRoothub pipe0"
    and "transferEnqueue_qh pf (priv h) t pipe0 = Some (Some qh, e0, pipe)"
  shows "(t_type t = usb_transfer_isochronous \<longrightarrow>
            ehci_transferEnqueue pf h t pipe0 = Some (- 1, h\<lparr>priv := e0\<rparr>, t, pipe) \<and>
            transfers (h\<lparr>priv := e0\<rparr>) = transfers h \<and> same_qtd_side (priv h) e0 \<and>
            (pipe_hcdpriv pipe0 = Some qh \<longrightarrow>
               qh_lastQtd (qhs e0 qh) = qh_lastQtd (qhs (priv h) qh) \<and>
               qh_nextQtd (qhs e0 qh) = qh_nextQtd (qhs (priv h) qh))) \<and>
         ((t_type t = usb_transfer_bulk \<or> t_type t = usb_transfer_interrupt) \<and> t_size t = 0 \<and>
          (qtdPool e0 \<noteq> [] \<or> (\<exists>oks. mem_ok e0 = True # oks)) \<longrightarrow>
            (\<exists>h' q. ehci_transferEnqueue pf h t pipe0 = Some (0, h', t\<lparr>t_hcdpriv := [q]\<rparr>, pipe) \<and>
                    transfers h' = transfers h @ [t\<lparr>t_hcdpriv := [q]\<rparr>] \<and>
                    QTD_LEN (qtd_token (qtds (priv h') q)) = 0 \<and>
                    qh_lastQtd (qhs (priv h') qh) = Some q))"
proof (intro conjI impI)
  assume ty: "t_type t = usb_transfer_isochronous"
  show "ehci_transferEnqueue pf h t pipe0 = Some (- 1, h\<lparr>priv := e0\<rparr>, t, pipe)"
    using ehci_transferEnqueue_stages [OF assms(1,2) transferEnqueue_stages_none [OF ty]]
    by simp
  show "transfers (h\<lparr>priv := e0\<rparr>) = transfers h" by simp
  show "same_qtd_side (priv h) e0"
    using transferEnqueue_qh_side [OF assms(2)] by (rule conjunct1)
  assume "pipe_hcdpriv pipe0 = Some qh"
  from transferEnqueue_qh_existing [OF this, of pf "priv h" t] assms(2)
  show "qh_lastQtd (qhs e0 qh) = qh_lastQtd (qhs (priv h) qh)"
    and "qh_nextQtd (qhs e0 qh) = qh_nextQtd (qhs (priv h) qh)" by auto
next
  assume z: "(t_type t = usb_transfer_bulk \<or> t_type t = usb_transfer_interrupt) \<and> t_size t = 0 \<and>
          (qtdPool e0 \<noteq> [] \<or> (\<exists>oks. mem_ok e0 = True # oks))"
  then have ty: "t_type t = usb_transfer_bulk \<or> t_type t = usb_transfer_interrupt"
    and sz: "t_size t = 0"
    and av: "qtdPool e0 \<noteq> [] \<or> (\<exists>oks. mem_ok e0 = True # oks)" by blast+
  from qtdAlloc_get_some [OF av, of pf] obtain q e2 where
    g: "qtdAlloc_get pf e0 = (Some q, e2)" by blast
  from transferEnqueue_stages_zero [OF ty sz g, of pipe] obtain e where
    s: "transferEnqueue_stages pf e0 t pipe = Some (0, [q], e)"
    and len: "QTD_LEN (qtd_token (qtds e q) OR QTD_IOC) = 0" by blast
  define h' where "h' = \<lparr>priv = ehci_enqueue (transferEnqueue_link e qh [q] q) qh q q,
                          transfers = transfers h @ [t\<lparr>t_hcdpriv := [q]\<rparr>]\<rparr>"
  have run: "ehci_transferEnqueue pf h t pipe0 = Some (0, h', t\<lparr>t_hcdpriv := [q]\<rparr>, pipe)"
    using ehci_transferEnqueue_stages [OF assms(1,2) s] by (simp add: h'_def)
  have tr: "transfers h' = transfers h @ [t\<lparr>t_hcdpriv := [q]\<rparr>]" by (simp add: h'_def)
  have "qtd_token (qtds (priv h') q) = qtd_token (qtds e q) OR QTD_IOC"
    by (simp add: h'_def ehci_enqueue_token transferEnqueue_link_token)
  with len have l0: "QTD_LEN (qtd_token (qtds (priv h') q)) = 0" by simp
  have lq: "qh_lastQtd (qhs (priv h') qh) = Some q"
    by (simp add: h'_def ehci_enqueue_lastQtd)
  from run tr l0 lq
  show "\<exists>h' q. ehci_transferEnqueue pf h t pipe0 = Some (0, h', t\<lparr>t_hcdpriv := [q]\<rparr>, pipe) \<and>
                    transfers h' = transfers h @ [t\<lparr>t_hcdpriv := [q]\<rparr>] \<and>
                    QTD_LEN (qtd_token (qtds (priv h') q)) = 0 \<and>
                    qh_lastQtd (qhs (priv h') qh) = Some q" by blast
qed

text \<open>
  Witness for C2: after the bulk pipe got its QH from a first submission, the
  isochronous transfer on it is rejected with -1; and that first submission, a
  bulk transfer of size zero on a controller with memory for its qTD, is accepted
  with a ring of one qTD.
\<close>

theorem enqueue_no_qtds_rejected_witness:
  "t_type isoc_out = usb_transfer_isochronous \<and>
   (\<exists>h t p e0. ehci_transferEnqueue pf0 (hcd0 [True, True]) (bulk_out 0) bulk_pipe
                  = Some (0, h, t, p) \<and> \<not> dev_isRoothub p \<and>
      transferEnqueue_qh pf0 (priv h) isoc_out p = Some (Some 1, e0, p) \<and>
      ehci_transferEnqueue pf0 h isoc_out p = Some (- 1, h\<lparr>priv := e0\<rparr>, isoc_out, p) \<and>
      same_qtd_side (priv h) e0) \<and>
   t_type (bulk_out 0) = usb_transfer_bulk \<and> t_size (bulk_out 0) = 0 \<and>
   \<not> dev_isRoothub bulk_pipe \<and>
   (\<exists>e0 pipe h' q.
      transferEnqueue_qh pf0 (priv (hcd0 [True, True])) (bulk_out 0) bulk_pipe
        = Some (Some 1, e0, pipe) \<and> mem_ok e0 = [True] \<and>
      ehci_transferEnqueue pf0 (hcd0 [True, True]) (bulk_out 0) bulk_pipe
        = Some (0, h', (bulk_out 0)\<lparr>t_hcdpriv := [q]\<rparr>, pipe) \<and>
      transfers h' = transfers (hcd0 [True, True]) @ [(bulk_out 0)\<lparr>t_hcdpriv := [q]\<rparr>] \<and>
      QTD_LEN (qtd_token (qtds (priv h') q)) = 0 \<and>
      qh_lastQtd (qhs (priv h') 1) = Some q)"
proof -
  have ty: "t_type isoc_out = usb_transfer_isochronous" by (simp add: isoc_out_def)
  from zero_bulk_example obtain h t p where
    f: "ehci_transferEnqueue pf0 (hcd0 [True, True]) (bulk_out 0) bulk_pipe = Some (0, h, t, p)"
    and p: "pipe_hcdpriv p = Some 1" "\<not> dev_isRoothub p" by blast
  from transferEnqueue_qh_existing [OF p(1), of pf0 "priv h" isoc_out] obtain e0 where
    q: "transferEnqueue_qh pf0 (priv h) isoc_out p = Some (Some 1, e0, p)" by blast
  from enqueue_no_qtds_rejected [OF p(2) q] ty
  have a: "ehci_transferEnqueue pf0 h isoc_out p = Some (- 1, h\<lparr>priv := e0\<rparr>, isoc_out, p) \<and>
           same_qtd_side (priv h) e0" by blast
  have tb: "t_type (bulk_out 0) = usb_transfer_bulk" "t_size (bulk_out 0) = 0"
    "\<not> dev_isRoothub bulk_pipe"
    by (simp_all add: bulk_out_def bulk_pipe_def)
  from zero_bulk_qh obtain e0' pipe where
    z: "transferEnqueue_qh pf0 (priv (hcd0 [True, True])) (bulk_out 0) bulk_pipe
          = Some (Some 1, e0', pipe)" "mem_ok e0' = [True]" by blast
  from enqueue_no_qtds_rejected [OF tb(3) z(1)] tb(1,2) z(2)
  obtain h' q' where
    b: "ehci_transferEnqueue pf0 (hcd0 [True, True]) (bulk_out 0) bulk_pipe
          = Some (0, h', (bulk_out 0)\<lparr>t_hcdpriv := [q']\<rparr>, pipe)"
       "transfers h' = transfers (hcd0 [True, True]) @ [(bulk_out 0)\<lparr>t_hcdpriv := [q']\<rparr>]"
       "QTD_LEN (qtd_token (qtds (priv h') q')) = 0"
       "qh_lastQtd (qhs (priv h') 1) = Some q'" by auto
  from ty f p(2) q a tb z b show ?thesis by blast
qed

text \<open>
  C2 as stated fails: the bulk transfer of size zero on a fresh controller is
  accepted. The call returns 0, the ring of the transfer is the one zero-length
  qTD 2, one transfer is in flight, and qTD 2 is the last qTD queued on QH 1.
\<close>

theorem enqueue_zero_bulk_counterexample:
  "t_size (bulk_out 0) = 0 \<and> t_type (bulk_out 0) = usb_transfer_bulk \<and>
   enqueue_outcome (ehci_transferEnqueue pf0 (hcd0 [True, True]) (bulk_out 0) bulk_pipe)
     = Some (0, [2], 1, Some 1, Some 2)"
proof -
  from zero_bulk_example obtain h t p where
    "ehci_transferEnqueue pf0 (hcd0 [True, True]) (bulk_out 0) bulk_pipe = Some (0, h, t, p)"
    "t_hcdpriv t = [2]" "length (transfers h) = 1" "pipe_hcdpriv p = Some 1"
    "qh_lastQtd (qhs (priv h) 1) = Some 2" by blast
  then show ?thesis by (simp add: enqueue_outcome_def bulk_out_def)
qed

section \<open>Properties of linking and unlinking\<close>

lemma qh_chain_next_mem:
  assumes "qh_chain qs p as" and "x \<in> set as" and "qh_next (qs x) = Some y"
  shows "y \<in> set as"
  using assms
proof (induction as arbitrary: p)
  case Nil
  then show ?case by simp
next
  case (Cons a as)
  show ?case
  proof (cases "x = a")
    case True
    with Cons.prems have "qh_chain qs (Some y) as" by simp
    then show ?thesis by (cases as) auto
  next
    case False
    with Cons.prems Cons.IH [of "qh_next (qs a)"] show ?thesis by auto
  qed
qed

lemma qh_chain_no_pred:
  assumes "qh_chain qs p as" and "qh \<notin> set as"
  shows "\<forall>x \<in> set as. qh_next (qs x) \<noteq> Some qh"
  using assms qh_chain_next_mem [of qs p as _ qh] by blast

lemma qh_chain_cong_mem:
  assumes "\<forall>x \<in> set as. qh_next (qs' x) = qh_next (qs x)"
  shows "qh_chain qs' p as = qh_chain qs p as"
  using assms by (induction as arbitrary: p) simp_all

lemma qh_chain_head: "qh_chain qs (Some a) as \<Longrightarrow> a \<in> set as"
  by (cases as) auto

text \<open>The search of the unlink along a chain without a predecessor of the QH.\<close>

lemma unlinkPeriodic_find_none:
  assumes "qh_chain qs p as" and "\<forall>x \<in> set as. qh_next (qs x) \<noteq> Some qh"
  shows "unlinkPeriodic_find qs p qh = Some None"
  using assms
proof (induction as arbitrary: p)
  case Nil
  then show ?case by (subst unlinkPeriodic_find.simps) simp
next
  case (Cons a as)
  then have "unlinkPeriodic_find qs p qh = unlinkPeriodic_find qs (qh_next (qs a)) qh"
    by (subst unlinkPeriodic_find.simps) simp
  with Cons show ?case by simp
qed

text \<open>
  The search along a chain of the store \<open>qs0\<close> in a store \<open>qs\<close> where \<open>a\<close>, a
  member of the chain, has got \<open>qh\<close> as successor and the other members are as
  in \<open>qs0\<close>.
\<close>

lemma unlinkPeriodic_find_pred:
  assumes "qh_chain qs0 p as" and "a \<in> set as" and "qh_next (qs a) = Some qh"
    and "\<forall>x \<in> set as. x \<noteq> a \<longrightarrow> qh_next (qs x) = qh_next (qs0 x) \<and> qh_next (qs0 x) \<noteq> Some qh"
  shows "unlinkPeriodic_find qs p qh = Some (Some a)"
  using assms
proof (induction as arbitrary: p)
  case Nil
  then show ?case by simp
next
  case (Cons x xs)
  then have p: "p = Some x" and c: "qh_chain qs0 (qh_next (qs0 x)) xs" by simp_all
  show ?case
  proof (cases "x = a")
    case True
    with p Cons.prems(3) show ?thesis by (subst unlinkPeriodic_find.simps) simp
  next
    case False
    with Cons.prems have n: "qh_next (qs x) = qh_next (qs0 x)" "qh_next (qs0 x) \<noteq> Some qh"
      and m: "a \<in> set xs" by auto
    have "unlinkPeriodic_find qs p qh = unlinkPeriodic_find qs (qh_next (qs0 x)) qh"
      using p n by (subst unlinkPeriodic_find.simps) simp
    moreover have "unlinkPeriodic_find qs (qh_next (qs0 x)) qh = Some (Some a)"
      using c m Cons.prems(3,4) by (intro Cons.IH) auto
    ultimately show ?thesis by simp
  qed
qed

text \<open>
  The loop of the unlink over the slots from \<open>i\<close> on, when no chain of these slots
  has a predecessor of the QH: the store is left alone, and each slot headed by the
  QH gets the successor of the QH.
\<close>

lemma unlinkPeriodic_slots_heads:
  assumes "\<forall>j. i \<le> j \<and> j < EHCI_PERIODIC_SIZE pf \<and> periodicNodes e ! j \<noteq> Some qh \<longrightarrow>
             (\<exists>as. qh_chain (qhs e) (periodicNodes e ! j) as \<and>
                   (\<forall>x \<in> set as. qh_next (qhs e x) \<noteq> Some qh))"
  shows "\<exists>e2. unlinkPeriodic_slots pf e qh i = Some e2 \<and> qhs e2 = qhs e \<and>
           length (periodicNodes e2) = length (periodicNodes e) \<and>
           length (periodicList e2) = length (periodicList e) \<and>
           (\<forall>j. periodicNodes e2 ! j =
                  (if i \<le> j \<and> j < EHCI_PERIODIC_SIZE pf \<and> j < length (periodicNodes e) \<and> periodicNodes e ! j = Some qh
                   then qh_next (qhs e qh) else periodicNodes e ! j)) \<and>
           (\<forall>j. periodicList e2 ! j =
                  (if i \<le> j \<and> j < EHCI_PERIODIC_SIZE pf \<and> j < length (periodicList e) \<and> periodicNodes e ! j = Some qh
                   then (if qh_next (qhs e qh) \<noteq> None then QH_PTR pf (qh_next (qhs e qh))
                         else QH_PTR_INVALID)
                   else periodicList e ! j))"
  using assms
proof (induction "EHCI_PERIODIC_SIZE pf - i" arbitrary: i e rule: less_induct)
  case less
  show ?case
  proof (cases "i < EHCI_PERIODIC_SIZE pf")
    case False
    then have "unlinkPeriodic_slots pf e qh i = Some e"
      by (subst unlinkPeriodic_slots.simps) simp
    with False show ?thesis by auto
  next
    case True
    show ?thesis
    proof (cases "periodicNodes e ! i = Some qh")
      case h: True
      define v where "v = (if qh_next (qhs e qh) \<noteq> None then QH_PTR pf (qh_next (qhs e qh))
                           else QH_PTR_INVALID)"
      define e' where "e' = e\<lparr>periodicList := (periodicList e)[i := v],
                               periodicNodes := (periodicNodes e)[i := qh_next (qhs e qh)]\<rparr>"
      have step: "unlinkPeriodic_slots pf e qh i = unlinkPeriodic_slots pf e' qh (i + 1)"
        using True h by (subst unlinkPeriodic_slots.simps) (simp add: e'_def v_def)
      have hyp: "\<forall>j. i + 1 \<le> j \<and> j < EHCI_PERIODIC_SIZE pf \<and> periodicNodes e' ! j \<noteq> Some qh \<longrightarrow>
             (\<exists>as. qh_chain (qhs e') (periodicNodes e' ! j) as \<and>
                   (\<forall>x \<in> set as. qh_next (qhs e' x) \<noteq> Some qh))"
      proof (intro allI impI)
        fix j
        assume a: "i + 1 \<le> j \<and> j < EHCI_PERIODIC_SIZE pf \<and> periodicNodes e' ! j \<noteq> Some qh"
        then have "i \<noteq> j" by simp
        then have same: "periodicNodes e' ! j = periodicNodes e ! j" by (simp add: e'_def)
        with a have "i \<le> j \<and> j < EHCI_PERIODIC_SIZE pf \<and> periodicNodes e ! j \<noteq> Some qh" by simp
        with less.prems have "\<exists>as. qh_chain (qhs e) (periodicNodes e ! j) as \<and>
                   (\<forall>x \<in> set as. qh_next (qhs e x) \<noteq> Some qh)" by blast
        with same show "\<exists>as. qh_chain (qhs e') (periodicNodes e' ! j) as \<and>
                   (\<forall>x \<in> set as. qh_next (qhs e' x) \<noteq> Some qh)" by (simp add: e'_def)
      qed
      have "EHCI_PERIODIC_SIZE pf - (i + 1) < EHCI_PERIODIC_SIZE pf - i" using True by simp
      from less.hyps [OF this hyp] obtain e2 where
        r: "unlinkPeriodic_slots pf e' qh (i + 1) = Some e2" "qhs e2 = qhs e'"
          "length (periodicNodes e2) = length (periodicNodes e')"
          "length (periodicList e2) = length (periodicList e')"
          "\<forall>j. periodicNodes e2 ! j =
                  (if i + 1 \<le> j \<and> j < EHCI_PERIODIC_SIZE pf \<and> j < length (periodicNodes e') \<and> periodicNodes e' ! j = Some qh
                   then qh_next (qhs e' qh) else periodicNodes e' ! j)"
          "\<forall>j. periodicList e2 ! j =
                  (if i + 1 \<le> j \<and> j < EHCI_PERIODIC_SIZE pf \<and> j < length (periodicList e') \<and> periodicNodes e' ! j = Some qh
                   then (if qh_next (qhs e' qh) \<noteq> None then QH_PTR pf (qh_next (qhs e' qh))
                         else QH_PTR_INVALID)
                   else periodicList e' ! j)"
        by blast
      have n: "periodicNodes e2 ! j =
                  (if i \<le> j \<and> j < EHCI_PERIODIC_SIZE pf \<and> j < length (periodicNodes e) \<and> periodicNodes e ! j = Some qh
                   then qh_next (qhs e qh) else periodicNodes e ! j)" for j
        using r(5) [rule_format, of j] h True
        by (cases "j = i") (auto simp: e'_def nth_list_update list_update_beyond)
      have l: "periodicList e2 ! j =
                  (if i \<le> j \<and> j < EHCI_PERIODIC_SIZE pf \<and> j < length (periodicList e) \<and> periodicNodes e ! j = Some qh
                   then (if qh_next (qhs e qh) \<noteq> None then QH_PTR pf (qh_next (qhs e qh))
                         else QH_PTR_INVALID)
                   else periodicList e ! j)" for j
        using r(6) [rule_format, of j] h True
        by (cases "j = i") (auto simp: e'_def v_def nth_list_update list_update_beyond)
      from step r(1-4) n l show ?thesis by (simp add: e'_def)
    next
      case nh: False
      with less.prems True obtain as where
        "qh_chain (qhs e) (periodicNodes e ! i) as" "\<forall>x \<in> set as. qh_next (qhs e x) \<noteq> Some qh"
        by (metis order_refl)
      then have f: "unlinkPeriodic_find (qhs e) (periodicNodes e ! i) qh = Some None"
        by (rule unlinkPeriodic_find_none)
      have step: "unlinkPeriodic_slots pf e qh i = unlinkPeriodic_slots pf e qh (i + 1)"
        using True nh f by (subst unlinkPeriodic_slots.simps) simp
      have hyp: "\<forall>j. i + 1 \<le> j \<and> j < EHCI_PERIODIC_SIZE pf \<and> periodicNodes e ! j \<noteq> Some qh \<longrightarrow>
             (\<exists>as. qh_chain (qhs e) (periodicNodes e ! j) as \<and>
                   (\<forall>x \<in> set as. qh_next (qhs e x) \<noteq> Some qh))"
        using less.prems by simp
      have "EHCI_PERIODIC_SIZE pf - (i + 1) < EHCI_PERIODIC_SIZE pf - i" using True by simp
      from less.hyps [OF this hyp] obtain e2 where
        r: "unlinkPeriodic_slots pf e qh (i + 1) = Some e2" "qhs e2 = qhs e"
          "length (periodicNodes e2) = length (periodicNodes e)"
          "length (periodicList e2) = length (periodicList e)"
          "\<forall>j. periodicNodes e2 ! j =
                  (if i + 1 \<le> j \<and> j < EHCI_PERIODIC_SIZE pf \<and> j < length (periodicNodes e) \<and> periodicNodes e ! j = Some qh
                   then qh_next (qhs e qh) else periodicNodes e ! j)"
          "\<forall>j. periodicList e2 ! j =
                  (if i + 1 \<le> j \<and> j < EHCI_PERIODIC_SIZE pf \<and> j < length (periodicList e) \<and> periodicNodes e ! j = Some qh
                   then (if qh_next (qhs e qh) \<noteq> None then QH_PTR pf (qh_next (qhs e qh))
                         else QH_PTR_INVALID)
                   else periodicList e ! j)"
        by blast
      have n: "periodicNodes e2 ! j =
                  (if i \<le> j \<and> j < EHCI_PERIODIC_SIZE pf \<and> j < length (periodicNodes e) \<and> periodicNodes e ! j = Some qh
                   then qh_next (qhs e qh) else periodicNodes e ! j)" for j
        using r(5) [rule_format, of j] nh by (cases "j = i") auto
      have l: "periodicList e2 ! j =
                  (if i \<le> j \<and> j < EHCI_PERIODIC_SIZE pf \<and> j < length (periodicList e) \<and> periodicNodes e ! j = Some qh
                   then (if qh_next (qhs e qh) \<noteq> None then QH_PTR pf (qh_next (qhs e qh))
                         else QH_PTR_INVALID)
                   else periodicList e ! j)" for j
        using r(6) [rule_format, of j] nh by (cases "j = i") auto
      from step r(1-4) n l show ?thesis by simp
    qed
  qed
qed

text \<open>The phase chosen by band allocation is a slot of the frame list.\<close>

lemma bandAlloc_phase_range:
  assumes "bandAlloc_phase pf e period i best phase = Some ph"
    and "unat phase < EHCI_PERIODIC_SIZE pf" and "EHCI_PERIODIC_SIZE pf \<le> 1024"
  shows "unat ph < EHCI_PERIODIC_SIZE pf"
  using assms
proof (induction "EHCI_PERIODIC_SIZE pf - i" arbitrary: i best phase rule: less_induct)
  case less
  show ?case
  proof (cases "of_nat i < period \<and> i < EHCI_PERIODIC_SIZE pf")
    case False
    with less.prems(1) have "ph = phase"
      by (subst (asm) bandAlloc_phase.simps) (simp split: if_splits)
    with less.prems(2) show ?thesis by simp
  next
    case True
    then have i: "i < EHCI_PERIODIC_SIZE pf" by simp
    with less.prems(3) have "i < 2 ^ 32" by simp
    then have ui: "unat (of_nat i :: u32) = i" by (simp add: unat_of_nat take_bit_nat_eq_self)
    from True less.prems(1) obtain n where
      r: "(if n < best then bandAlloc_phase pf e period (i + 1) n (of_nat i)
           else bandAlloc_phase pf e period (i + 1) best phase) = Some ph"
      by (subst (asm) bandAlloc_phase.simps) (auto split: option.splits)
    have m: "EHCI_PERIODIC_SIZE pf - (i + 1) < EHCI_PERIODIC_SIZE pf - i" using i by simp
    show ?thesis
    proof (cases "n < best")
      case True
      with r have "bandAlloc_phase pf e period (i + 1) n (of_nat i) = Some ph" by simp
      from less.hyps [OF m this _ less.prems(3)] ui i show ?thesis by simp
    next
      case False
      with r have "bandAlloc_phase pf e period (i + 1) best phase = Some ph" by simp
      from less.hyps [OF m this less.prems(2,3)] show ?thesis .
    qed
  qed
qed

lemma ehci_bandAlloc_shape:
  assumes "ehci_bandAlloc pf e qh = Some e1"
    and "0 < EHCI_PERIODIC_SIZE pf" and "EHCI_PERIODIC_SIZE pf \<le> 1024"
  shows "\<exists>ph u. e1 = e\<lparr>qhs := (qhs e)(qh := (qhs e qh)\<lparr>qh_phase := ph, qh_uframe := u\<rparr>)\<rparr> \<and>
                unat ph < EHCI_PERIODIC_SIZE pf"
proof -
  from assms(1) obtain ph where
    p: "bandAlloc_phase pf e (qh_period (qhs e qh)) 0 (- 1) 0 = Some ph"
    by (auto simp: ehci_bandAlloc_def split: option.splits)
  have "unat ph < EHCI_PERIODIC_SIZE pf"
    using bandAlloc_phase_range [OF p _ assms(3)] assms(2) by simp
  moreover from assms(1) p obtain u where
    "e1 = e\<lparr>qhs := (qhs e)(qh := (qhs e qh)\<lparr>qh_phase := ph, qh_uframe := u\<rparr>)\<rparr>"
    by (auto simp: ehci_bandAlloc_def split: option.splits if_splits)
  ultimately show ?thesis by blast
qed

text \<open>
  The slots written when a QH becomes a first element: from slot \<open>i\<close> on, every
  \<open>period\<close>-th slot holds the QH and a pointer to it; all others are untouched.
\<close>

lemma stride_step:
  fixes i j p :: nat
  assumes "0 < p"
  shows "(i \<le> j \<and> (j - i) mod p = 0) \<longleftrightarrow> (j = i \<or> (i + p \<le> j \<and> (j - (i + p)) mod p = 0))"
proof (cases "i \<le> j")
  case False
  then show ?thesis by auto
next
  case True
  then obtain d where d: "j = i + d" by (auto simp: le_iff_add)
  show ?thesis
  proof (cases "d = 0")
    case True
    with d show ?thesis by simp
  next
    case False
    show ?thesis
    proof (cases "p \<le> d")
      case True
      then have "(d - p) mod p = d mod p" by (simp add: le_mod_geq)
      with d True False show ?thesis by auto
    next
      case lt: False
      then have "d mod p = d" by simp
      with d lt False show ?thesis by auto
    qed
  qed
qed

lemma linkPeriodic_slots_result:
  assumes "linkPeriodic_slots pf qh p i nodes fl = Some (nodes', fl')"
  shows "length nodes' = length nodes \<and> length fl' = length fl \<and>
         (\<forall>j. j < EHCI_PERIODIC_SIZE pf \<and> j < length nodes \<longrightarrow>
              nodes' ! j = (if i \<le> j \<and> (j - i) mod p = 0 then Some qh else nodes ! j)) \<and>
         (\<forall>j. j < EHCI_PERIODIC_SIZE pf \<and> j < length fl \<longrightarrow>
              fl' ! j = (if i \<le> j \<and> (j - i) mod p = 0 then QH_PTR pf (Some qh) else fl ! j))"
  using assms
proof (induction "EHCI_PERIODIC_SIZE pf - i" arbitrary: i nodes fl rule: less_induct)
  case less
  show ?case
  proof (cases "i < EHCI_PERIODIC_SIZE pf")
    case False
    with less.prems have "nodes' = nodes" "fl' = fl"
      by (subst (asm) linkPeriodic_slots.simps, simp)+
    with False show ?thesis by auto
  next
    case True
    with less.prems have p: "0 < p"
      and r: "linkPeriodic_slots pf qh p (i + p) (nodes[i := Some qh])
                (fl[i := QH_PTR pf (Some qh)]) = Some (nodes', fl')"
      by (subst (asm) linkPeriodic_slots.simps, simp split: if_splits)+
    have "EHCI_PERIODIC_SIZE pf - (i + p) < EHCI_PERIODIC_SIZE pf - i" using True p by simp
    note ih = less.hyps [OF this r]
    have n: "nodes' ! j = (if i \<le> j \<and> (j - i) mod p = 0 then Some qh else nodes ! j)"
      if "j < EHCI_PERIODIC_SIZE pf \<and> j < length nodes" for j
      using ih that stride_step [OF p, of i j]
      by (cases "j = i") (auto simp: nth_list_update)
    have f: "fl' ! j = (if i \<le> j \<and> (j - i) mod p = 0 then QH_PTR pf (Some qh) else fl ! j)"
      if "j < EHCI_PERIODIC_SIZE pf \<and> j < length fl" for j
      using ih that stride_step [OF p, of i j]
      by (cases "j = i") (auto simp: nth_list_update)
    from ih n f show ?thesis by simp
  qed
qed

lemma qh_chain_unique:
  assumes "qh_chain qs p as" and "qh_chain qs p bs"
  shows "as = bs"
  using assms
proof (induction as arbitrary: p bs)
  case Nil
  then show ?case by (cases bs) auto
next
  case (Cons a as)
  then show ?case by (cases bs) auto
qed

text \<open>
  What linking into the periodic schedule does to a state whose chains end and do
  not hold the QH yet: either the QH became the first element of some slots, each
  written slot holding it and a pointer to it, and no other QH changed; or it was
  inserted after a QH \<open>a\<close> of a chain, and only \<open>a\<close> and the QH changed.
\<close>

lemma ehci_qhLinkPeriodic_shape:
  assumes link: "ehci_qhLinkPeriodic pf e qh = Some e1"
    and n0: "0 < EHCI_PERIODIC_SIZE pf" and n1: "EHCI_PERIODIC_SIZE pf \<le> 1024"
    and ln: "length (periodicNodes e) = EHCI_PERIODIC_SIZE pf"
    and ll: "length (periodicList e) = EHCI_PERIODIC_SIZE pf"
    and fresh: "\<forall>i < EHCI_PERIODIC_SIZE pf.
                  \<exists>as. qh_chain (qhs e) (periodicNodes e ! i) as \<and> qh \<notin> set as"
  shows "((\<forall>x. x \<noteq> qh \<longrightarrow> qhs e1 x = qhs e x) \<and>
          length (periodicNodes e1) = EHCI_PERIODIC_SIZE pf \<and>
          length (periodicList e1) = EHCI_PERIODIC_SIZE pf \<and>
          (\<exists>p < EHCI_PERIODIC_SIZE pf. qh_next (qhs e1 qh) = periodicNodes e ! p) \<and>
          (\<forall>j < EHCI_PERIODIC_SIZE pf.
             (periodicNodes e1 ! j = Some qh \<and> periodicList e1 ! j = QH_PTR pf (Some qh)) \<or>
             (periodicNodes e1 ! j = periodicNodes e ! j \<and>
              periodicList e1 ! j = periodicList e ! j))) \<or>
         (\<exists>a. a \<noteq> qh \<and> qh_next (qhs e1 a) = Some qh \<and>
              qh_next (qhs e1 qh) = qh_next (qhs e a) \<and>
              (\<exists>j as. j < EHCI_PERIODIC_SIZE pf \<and> qh_chain (qhs e) (periodicNodes e ! j) as \<and>
                       a \<in> set as) \<and>
              (\<forall>x. x \<noteq> qh \<and> x \<noteq> a \<longrightarrow> qhs e1 x = qhs e x) \<and>
              periodicNodes e1 = periodicNodes e \<and> periodicList e1 = periodicList e)"
proof -
  from link obtain eb where b: "ehci_bandAlloc pf e qh = Some eb"
    by (auto simp: ehci_qhLinkPeriodic_def split: option.splits)
  from ehci_bandAlloc_shape [OF b n0 n1] obtain ph u where
    eb: "eb = e\<lparr>qhs := (qhs e)(qh := (qhs e qh)\<lparr>qh_phase := ph, qh_uframe := u\<rparr>)\<rparr>"
    and ph: "unat ph < EHCI_PERIODIC_SIZE pf" by blast
  define em where "em = linkPeriodic_masks eb qh"
  have em_other: "qhs em x = qhs e x" if "x \<noteq> qh" for x
    using that by (simp add: em_def eb linkPeriodic_masks_def)
  have em_next: "qh_next (qhs em x) = qh_next (qhs e x)" for x
    by (simp add: em_def eb linkPeriodic_masks_def)
  have em_arr: "periodicNodes em = periodicNodes e" "periodicList em = periodicList e"
    "unat (qh_phase (qhs em qh)) = unat ph"
    by (simp_all add: em_def eb linkPeriodic_masks_def)
  from fresh ph obtain as where
    as: "qh_chain (qhs e) (periodicNodes e ! unat ph) as" "qh \<notin> set as" by blast
  have "qh_chain (qhs em) (periodicNodes e ! unat ph) as = qh_chain (qhs e) (periodicNodes e ! unat ph) as"
    by (rule qh_chain_next_cong) (rule em_next)
  with as have chm: "qh_chain (qhs em) (periodicNodes e ! unat ph) as" by simp
  from linkPeriodic_find_chain [OF chm, of "qh_period (qhs em qh)"] obtain t where
    t: "linkPeriodic_find (qhs em) (periodicNodes e ! unat ph) (qh_period (qhs em qh)) = Some t"
    and tm: "\<forall>a. t = Some a \<longrightarrow> a \<in> set as" by blast
  define r where "r = (case t of
                          None \<Rightarrow> linkPeriodic_first pf em qh
                        | Some a \<Rightarrow>
                            if qh_period (qhs em a) < qh_period (qhs em qh)
                            then linkPeriodic_first pf em qh
                            else Some (linkPeriodic_inside pf em qh a))"
  from link b t obtain e3 where e3: "r = Some e3" and e1: "e1 = linkPeriodic_last e3 qh"
    by (auto simp: ehci_qhLinkPeriodic_def Let_def em_def [symmetric] em_arr r_def
        split: option.splits)
  have last_other: "qhs e1 x = qhs e3 x" if "x \<noteq> qh" for x
    using that by (simp add: e1 linkPeriodic_last_def)
  have last_next: "qh_next (qhs e1 x) = qh_next (qhs e3 x)" for x
    by (simp add: e1 linkPeriodic_last_def)
  have last_arr: "periodicNodes e1 = periodicNodes e3" "periodicList e1 = periodicList e3"
    by (simp_all add: e1 linkPeriodic_last_def)
  show ?thesis
  proof (cases "r = linkPeriodic_first pf em qh")
    case True
    with e3 have f: "linkPeriodic_first pf em qh = Some e3" by simp
    let ?em1 = "em\<lparr>qhs := (qhs em)(qh := (qhs em qh)
                    \<lparr>qh_next := periodicNodes em ! unat (qh_phase (qhs em qh))\<rparr>)\<rparr>"
    from f obtain nodes' fl' where
      s: "linkPeriodic_slots pf qh (unat (qh_period (qhs ?em1 qh))) (unat (qh_phase (qhs em qh)))
            (periodicNodes ?em1) (periodicList ?em1) = Some (nodes', fl')"
      and e3': "e3 = ?em1\<lparr>periodicNodes := nodes', periodicList := fl'\<rparr>"
      by (auto simp: linkPeriodic_first_def Let_def split: option.splits)
    note res = linkPeriodic_slots_result [OF s]
    have o: "\<forall>x. x \<noteq> qh \<longrightarrow> qhs e1 x = qhs e x"
      using last_other em_other by (simp add: e3')
    have len: "length (periodicNodes e1) = EHCI_PERIODIC_SIZE pf"
      "length (periodicList e1) = EHCI_PERIODIC_SIZE pf"
      using res ln ll by (simp_all add: last_arr e3' em_arr)
    have sl: "(periodicNodes e1 ! j = Some qh \<and> periodicList e1 ! j = QH_PTR pf (Some qh)) \<or>
             (periodicNodes e1 ! j = periodicNodes e ! j \<and>
              periodicList e1 ! j = periodicList e ! j)" if "j < EHCI_PERIODIC_SIZE pf" for j
      using res that ln ll by (simp add: last_arr e3' em_arr)
    have "qh_next (qhs e1 qh) = periodicNodes e ! unat ph"
      by (simp add: last_next e3' em_arr)
    with ph have nx: "\<exists>p < EHCI_PERIODIC_SIZE pf. qh_next (qhs e1 qh) = periodicNodes e ! p"
      by blast
    from o len nx sl show ?thesis by blast
  next
    case False
    then obtain a where ta: "t = Some a" and e3a: "e3 = linkPeriodic_inside pf em qh a"
      using e3 unfolding r_def by (cases t) (auto split: if_splits)
    from tm ta have am: "a \<in> set as" by simp
    with as have aq: "a \<noteq> qh" by auto
    have n1: "qh_next (qhs e1 a) = Some qh"
      using aq by (simp add: last_next e3a linkPeriodic_inside_def Let_def)
    have n2: "qh_next (qhs e1 qh) = qh_next (qhs e a)"
      using aq em_next [of a] by (simp add: last_next e3a linkPeriodic_inside_def Let_def)
    have o: "\<forall>x. x \<noteq> qh \<and> x \<noteq> a \<longrightarrow> qhs e1 x = qhs e x"
      using last_other em_other by (simp add: e3a linkPeriodic_inside_def Let_def)
    have arr: "periodicNodes e1 = periodicNodes e" "periodicList e1 = periodicList e"
      by (simp_all add: last_arr e3a linkPeriodic_inside_def Let_def em_arr)
    from aq n1 n2 o arr as(1) am ph show ?thesis by blast
  qed
qed

lemma unlinkPeriodic_slots_idle:
  assumes "\<forall>j. i \<le> j \<and> j < EHCI_PERIODIC_SIZE pf \<longrightarrow>
             periodicNodes e ! j \<noteq> Some qh \<and>
             (\<exists>as. qh_chain (qhs e) (periodicNodes e ! j) as \<and>
                   (\<forall>x \<in> set as. qh_next (qhs e x) \<noteq> Some qh))"
  shows "\<exists>e2. unlinkPeriodic_slots pf e qh i = Some e2 \<and> qhs e2 = qhs e \<and>
           periodicNodes e2 = periodicNodes e \<and> periodicList e2 = periodicList e"
proof -
  have "\<forall>j. i \<le> j \<and> j < EHCI_PERIODIC_SIZE pf \<and> periodicNodes e ! j \<noteq> Some qh \<longrightarrow>
             (\<exists>as. qh_chain (qhs e) (periodicNodes e ! j) as \<and>
                   (\<forall>x \<in> set as. qh_next (qhs e x) \<noteq> Some qh))"
    using assms by blast
  from unlinkPeriodic_slots_heads [OF this] obtain e2 where
    r: "unlinkPeriodic_slots pf e qh i = Some e2" "qhs e2 = qhs e"
      "length (periodicNodes e2) = length (periodicNodes e)"
      "length (periodicList e2) = length (periodicList e)"
      "\<forall>j. periodicNodes e2 ! j =
            (if i \<le> j \<and> j < EHCI_PERIODIC_SIZE pf \<and> j < length (periodicNodes e) \<and>
                periodicNodes e ! j = Some qh
             then qh_next (qhs e qh) else periodicNodes e ! j)"
      "\<forall>j. periodicList e2 ! j =
            (if i \<le> j \<and> j < EHCI_PERIODIC_SIZE pf \<and> j < length (periodicList e) \<and>
                periodicNodes e ! j = Some qh
             then (if qh_next (qhs e qh) \<noteq> None then QH_PTR pf (qh_next (qhs e qh))
                   else QH_PTR_INVALID)
             else periodicList e ! j)"
    by blast
  have "periodicNodes e2 ! j = periodicNodes e ! j" for j
    using r(5) [rule_format, of j] assms by auto
  with r(3) have n: "periodicNodes e2 = periodicNodes e" by (intro nth_equalityI) simp_all
  have "periodicList e2 ! j = periodicList e ! j" for j
    using r(6) [rule_format, of j] assms by auto
  with r(4) have l: "periodicList e2 = periodicList e" by (intro nth_equalityI) simp_all
  from r(1,2) n l show ?thesis by blast
qed

text \<open>
  The loop of the unlink when the QH was inserted after \<open>a\<close>: \<open>qs0\<close> is the store
  before the link. The first chain that holds \<open>a\<close> gives \<open>a\<close> the successor of the
  QH back, with the pointer word for it; the arrays are left alone.
\<close>

lemma unlinkPeriodic_slots_pred:
  assumes aq: "a \<noteq> qh" and an: "qh_next (qhs e a) = Some qh"
    and others: "\<forall>x. x \<noteq> a \<and> x \<noteq> qh \<longrightarrow> qh_next (qhs e x) = qh_next (qs0 x)"
    and nx: "qh_next (qs0 a) = qh_next (qhs e qh)"
    and ch: "\<forall>j. i \<le> j \<and> j < EHCI_PERIODIC_SIZE pf \<longrightarrow>
               (\<exists>as. qh_chain qs0 (periodicNodes e ! j) as \<and> qh \<notin> set as)"
  shows "\<exists>e2. unlinkPeriodic_slots pf e qh i = Some e2 \<and>
           periodicNodes e2 = periodicNodes e \<and> periodicList e2 = periodicList e \<and>
           (qhs e2 = qhs e \<or>
            qhs e2 = (qhs e)(a := (qhs e a)\<lparr>qh_next := qh_next (qhs e qh),
                         qh_horizontal := hw_ptr pf (qh_next (qhs e qh))\<rparr>)) \<and>
           ((\<exists>j as. i \<le> j \<and> j < EHCI_PERIODIC_SIZE pf \<and>
                     qh_chain qs0 (periodicNodes e ! j) as \<and> a \<in> set as) \<longrightarrow>
            qhs e2 = (qhs e)(a := (qhs e a)\<lparr>qh_next := qh_next (qhs e qh),
                         qh_horizontal := hw_ptr pf (qh_next (qhs e qh))\<rparr>))"
  using ch
proof (induction "EHCI_PERIODIC_SIZE pf - i" arbitrary: i rule: less_induct)
  case less
  let ?R = "(qhs e)(a := (qhs e a)\<lparr>qh_next := qh_next (qhs e qh),
                         qh_horizontal := hw_ptr pf (qh_next (qhs e qh))\<rparr>)"
  have Rnext: "qh_next (?R x) = qh_next (qs0 x)" if "x \<noteq> qh" for x
    using that others nx by simp
  show ?case
  proof (cases "i < EHCI_PERIODIC_SIZE pf")
    case False
    then have "unlinkPeriodic_slots pf e qh i = Some e"
      by (subst unlinkPeriodic_slots.simps) simp
    with False show ?thesis by auto
  next
    case True
    with less.prems obtain as where
      as: "qh_chain qs0 (periodicNodes e ! i) as" "qh \<notin> set as" by (metis order_refl)
    have nh: "periodicNodes e ! i \<noteq> Some qh"
      using as qh_chain_head [of qs0 qh as] by auto
    note np = qh_chain_no_pred [OF as]
    show ?thesis
    proof (cases "a \<in> set as")
      case True
      have "\<forall>x \<in> set as. x \<noteq> a \<longrightarrow> qh_next (qhs e x) = qh_next (qs0 x) \<and> qh_next (qs0 x) \<noteq> Some qh"
        using others np as(2) by auto
      from unlinkPeriodic_find_pred [OF as(1) True an this]
      have f: "unlinkPeriodic_find (qhs e) (periodicNodes e ! i) qh = Some (Some a)" .
      have step: "unlinkPeriodic_slots pf e qh i = unlinkPeriodic_slots pf (e\<lparr>qhs := ?R\<rparr>) qh (i + 1)"
        using \<open>i < EHCI_PERIODIC_SIZE pf\<close> nh f
        by (subst unlinkPeriodic_slots.simps) (simp add: Let_def hw_ptr_def)
      have "\<forall>j. i + 1 \<le> j \<and> j < EHCI_PERIODIC_SIZE pf \<longrightarrow>
             periodicNodes (e\<lparr>qhs := ?R\<rparr>) ! j \<noteq> Some qh \<and>
             (\<exists>as. qh_chain (qhs (e\<lparr>qhs := ?R\<rparr>)) (periodicNodes (e\<lparr>qhs := ?R\<rparr>) ! j) as \<and>
                   (\<forall>x \<in> set as. qh_next (qhs (e\<lparr>qhs := ?R\<rparr>) x) \<noteq> Some qh))"
      proof (intro allI impI)
        fix j
        assume j: "i + 1 \<le> j \<and> j < EHCI_PERIODIC_SIZE pf"
        with less.prems obtain bs where
          bs: "qh_chain qs0 (periodicNodes e ! j) bs" "qh \<notin> set bs"
          by (metis add_leD1)
        have m: "\<forall>x \<in> set bs. qh_next (?R x) = qh_next (qs0 x)"
        proof
          fix x
          assume "x \<in> set bs"
          with bs(2) have "x \<noteq> qh" by auto
          then show "qh_next (?R x) = qh_next (qs0 x)" by (rule Rnext)
        qed
        have "qh_chain ?R (periodicNodes e ! j) bs = qh_chain qs0 (periodicNodes e ! j) bs"
          by (rule qh_chain_cong_mem) (rule m)
        with bs have c: "qh_chain ?R (periodicNodes e ! j) bs" by simp
        have np': "\<forall>x \<in> set bs. qh_next (?R x) \<noteq> Some qh"
          using m qh_chain_no_pred [OF bs] by simp
        have nh': "periodicNodes e ! j \<noteq> Some qh"
          using bs qh_chain_head [of qs0 qh bs] by auto
        have sel: "qhs (e\<lparr>qhs := ?R\<rparr>) = ?R" "periodicNodes (e\<lparr>qhs := ?R\<rparr>) = periodicNodes e"
          by simp_all
        from c np' have "\<exists>as. qh_chain ?R (periodicNodes e ! j) as \<and>
                   (\<forall>x \<in> set as. qh_next (?R x) \<noteq> Some qh)"
          by (intro exI [of _ bs] conjI)
        with nh' show "periodicNodes (e\<lparr>qhs := ?R\<rparr>) ! j \<noteq> Some qh \<and>
             (\<exists>as. qh_chain (qhs (e\<lparr>qhs := ?R\<rparr>)) (periodicNodes (e\<lparr>qhs := ?R\<rparr>) ! j) as \<and>
                   (\<forall>x \<in> set as. qh_next (qhs (e\<lparr>qhs := ?R\<rparr>) x) \<noteq> Some qh))"
          unfolding sel by (rule conjI)
      qed
      from unlinkPeriodic_slots_idle [OF this] step show ?thesis by auto
    next
      case False
      have m: "\<forall>x \<in> set as. qh_next (qhs e x) = qh_next (qs0 x)"
        using others False as(2) by auto
      have "qh_chain (qhs e) (periodicNodes e ! i) as = qh_chain qs0 (periodicNodes e ! i) as"
        by (rule qh_chain_cong_mem) (rule m)
      with as have c: "qh_chain (qhs e) (periodicNodes e ! i) as" by simp
      have "\<forall>x \<in> set as. qh_next (qhs e x) \<noteq> Some qh" using m np by simp
      from unlinkPeriodic_find_none [OF c this]
      have f: "unlinkPeriodic_find (qhs e) (periodicNodes e ! i) qh = Some None" .
      have step: "unlinkPeriodic_slots pf e qh i = unlinkPeriodic_slots pf e qh (i + 1)"
        using \<open>i < EHCI_PERIODIC_SIZE pf\<close> nh f by (subst unlinkPeriodic_slots.simps) simp
      have hyp: "\<forall>j. i + 1 \<le> j \<and> j < EHCI_PERIODIC_SIZE pf \<longrightarrow>
               (\<exists>as. qh_chain qs0 (periodicNodes e ! j) as \<and> qh \<notin> set as)"
        using less.prems by simp
      have "EHCI_PERIODIC_SIZE pf - (i + 1) < EHCI_PERIODIC_SIZE pf - i"
        using \<open>i < EHCI_PERIODIC_SIZE pf\<close> by simp
      from less.hyps [OF this hyp] obtain e2 where
        r: "unlinkPeriodic_slots pf e qh (i + 1) = Some e2"
          "periodicNodes e2 = periodicNodes e" "periodicList e2 = periodicList e"
          "qhs e2 = qhs e \<or> qhs e2 = ?R"
          "(\<exists>j as. i + 1 \<le> j \<and> j < EHCI_PERIODIC_SIZE pf \<and>
                     qh_chain qs0 (periodicNodes e ! j) as \<and> a \<in> set as) \<longrightarrow> qhs e2 = ?R"
        by blast
      have "qhs e2 = ?R"
        if "\<exists>j as. i \<le> j \<and> j < EHCI_PERIODIC_SIZE pf \<and>
                     qh_chain qs0 (periodicNodes e ! j) as \<and> a \<in> set as"
      proof -
        from that obtain j bs where
          j: "i \<le> j" "j < EHCI_PERIODIC_SIZE pf" "qh_chain qs0 (periodicNodes e ! j) bs" "a \<in> set bs"
          by blast
        have "j \<noteq> i"
        proof
          assume "j = i"
          with j(3) as(1) have "bs = as" by (simp add: qh_chain_unique)
          with j(4) False show False by simp
        qed
        with j have "i + 1 \<le> j" by simp
        with j r(5) show ?thesis by blast
      qed
      with step r show ?thesis by auto
    qed
  qed
qed


text \<open>
  Linking into the asynchronous schedule and unlinking again: the head of the ring
  gets back its horizontal pointer and its successor.
\<close>

lemma async_link_unlink:
  assumes "asyncList e = Some ah" and "qh \<noteq> ah" and "qh_next (qhs e ah) \<noteq> None"
    and "qh_next (qhs e ah) \<noteq> Some qh"
  shows "\<exists>e1 e2. ehci_qhLinkAsync pf e qh = Some e1 \<and> ehci_qhUnlinkAsync e1 qh = Some e2 \<and>
           qh_horizontal (qhs e2 ah) = qh_horizontal (qhs e ah) \<and>
           qh_next (qhs e2 ah) = qh_next (qhs e ah)"
proof -
  from assms(3) obtain n where n: "qh_next (qhs e ah) = Some n" by auto
  with assms(4) have nq: "n \<noteq> qh" by simp
  show ?thesis
  proof (cases "n = ah")
    case True
    with assms(1,2) n nq show ?thesis
      by (simp add: ehci_qhLinkAsync_def ehci_qhUnlinkAsync_def Let_def)
  next
    case False
    with assms(1,2) n nq show ?thesis
      by (simp add: ehci_qhLinkAsync_def ehci_qhUnlinkAsync_def Let_def)
  qed
qed

text \<open>
  Linking into the periodic schedule and unlinking again. The QH was on no chain;
  every slot it became the head of held its successor before, the frame list entry
  being the pointer word of that successor; and the horizontal pointer of the QH it
  was put behind was the pointer word of the successor of that QH.
\<close>

lemma periodic_link_unlink:
  assumes n0: "0 < EHCI_PERIODIC_SIZE pf" and n1: "EHCI_PERIODIC_SIZE pf \<le> 1024"
    and ln: "length (periodicNodes e) = EHCI_PERIODIC_SIZE pf"
    and ll: "length (periodicList e) = EHCI_PERIODIC_SIZE pf"
    and fresh: "\<forall>i < EHCI_PERIODIC_SIZE pf.
                  \<exists>as. qh_chain (qhs e) (periodicNodes e ! i) as \<and> qh \<notin> set as"
    and link: "ehci_qhLinkPeriodic pf e qh = Some e1"
    and heads: "\<forall>i < EHCI_PERIODIC_SIZE pf. periodicNodes e1 ! i = Some qh \<longrightarrow>
                  periodicNodes e ! i = qh_next (qhs e1 qh) \<and>
                  periodicList e ! i = hw_ptr pf (qh_next (qhs e1 qh))"
    and pred: "\<forall>a. a \<noteq> qh \<and> qh_next (qhs e1 a) = Some qh \<longrightarrow>
                  qh_horizontal (qhs e a) = hw_ptr pf (qh_next (qhs e a))"
  shows "\<exists>e2. ehci_qhUnlinkPeriodic pf e1 qh = Some e2 \<and>
              periodicNodes e2 = periodicNodes e \<and> periodicList e2 = periodicList e \<and>
              (\<forall>x. x \<noteq> qh \<longrightarrow> qh_next (qhs e2 x) = qh_next (qhs e x) \<and>
                               qh_horizontal (qhs e2 x) = qh_horizontal (qhs e x))"
proof -
  let ?N = "EHCI_PERIODIC_SIZE pf"
  from ehci_qhLinkPeriodic_shape [OF link n0 n1 ln ll fresh]
  consider
    (first) "\<forall>x. x \<noteq> qh \<longrightarrow> qhs e1 x = qhs e x"
      "length (periodicNodes e1) = ?N" "length (periodicList e1) = ?N"
      "\<forall>j < ?N. (periodicNodes e1 ! j = Some qh \<and> periodicList e1 ! j = QH_PTR pf (Some qh)) \<or>
             (periodicNodes e1 ! j = periodicNodes e ! j \<and>
              periodicList e1 ! j = periodicList e ! j)"
  | (inside) a where "a \<noteq> qh" "qh_next (qhs e1 a) = Some qh"
      "qh_next (qhs e1 qh) = qh_next (qhs e a)"
      "\<exists>j as. j < ?N \<and> qh_chain (qhs e) (periodicNodes e ! j) as \<and> a \<in> set as"
      "\<forall>x. x \<noteq> qh \<and> x \<noteq> a \<longrightarrow> qhs e1 x = qhs e x"
      "periodicNodes e1 = periodicNodes e" "periodicList e1 = periodicList e"
    by blast
  then show ?thesis
  proof cases
    case first
    have hyp: "\<forall>j. 0 \<le> j \<and> j < ?N \<and> periodicNodes e1 ! j \<noteq> Some qh \<longrightarrow>
             (\<exists>as. qh_chain (qhs e1) (periodicNodes e1 ! j) as \<and>
                   (\<forall>x \<in> set as. qh_next (qhs e1 x) \<noteq> Some qh))"
    proof (intro allI impI)
      fix j assume j: "0 \<le> j \<and> j < ?N \<and> periodicNodes e1 ! j \<noteq> Some qh"
      with first(4) have same: "periodicNodes e1 ! j = periodicNodes e ! j" by blast
      from fresh j obtain as where
        as: "qh_chain (qhs e) (periodicNodes e ! j) as" "qh \<notin> set as" by blast
      have eq: "\<forall>x \<in> set as. qh_next (qhs e1 x) = qh_next (qhs e x)"
        using first(1) as(2) by auto
      have c1: "qh_chain (qhs e1) (periodicNodes e ! j) as"
        using qh_chain_cong_mem [OF eq, of "periodicNodes e ! j"] as(1) by simp
      have "\<forall>x \<in> set as. qh_next (qhs e x) \<noteq> Some qh"
        by (rule qh_chain_no_pred [OF as])
      with eq have "\<forall>x \<in> set as. qh_next (qhs e1 x) \<noteq> Some qh" by simp
      with c1 same
      show "\<exists>as. qh_chain (qhs e1) (periodicNodes e1 ! j) as \<and>
                   (\<forall>x \<in> set as. qh_next (qhs e1 x) \<noteq> Some qh)"
        by (intro exI [of _ as]) simp
    qed
    from unlinkPeriodic_slots_heads [OF hyp] obtain e2 where
      u: "unlinkPeriodic_slots pf e1 qh 0 = Some e2" and q: "qhs e2 = qhs e1"
      and l2: "length (periodicNodes e2) = length (periodicNodes e1)"
              "length (periodicList e2) = length (periodicList e1)"
      and nd: "\<forall>j. periodicNodes e2 ! j =
                  (if 0 \<le> j \<and> j < ?N \<and> j < length (periodicNodes e1) \<and> periodicNodes e1 ! j = Some qh
                   then qh_next (qhs e1 qh) else periodicNodes e1 ! j)"
      and fl: "\<forall>j. periodicList e2 ! j =
                  (if 0 \<le> j \<and> j < ?N \<and> j < length (periodicList e1) \<and> periodicNodes e1 ! j = Some qh
                   then (if qh_next (qhs e1 qh) \<noteq> None then QH_PTR pf (qh_next (qhs e1 qh))
                         else QH_PTR_INVALID)
                   else periodicList e1 ! j)"
      by blast
    have nodes: "periodicNodes e2 = periodicNodes e"
    proof (rule nth_equalityI)
      show "length (periodicNodes e2) = length (periodicNodes e)"
        using l2 first(2) ln by simp
      fix j assume "j < length (periodicNodes e2)"
      then have j: "j < ?N" using l2 first(2) by simp
      show "periodicNodes e2 ! j = periodicNodes e ! j"
      proof (cases "periodicNodes e1 ! j = Some qh")
        case True
        with nd j first(2) have "periodicNodes e2 ! j = qh_next (qhs e1 qh)" by simp
        with heads j True show ?thesis by simp
      next
        case False
        with nd have "periodicNodes e2 ! j = periodicNodes e1 ! j" by simp
        with first(4) j False show ?thesis by auto
      qed
    qed
    have flist: "periodicList e2 = periodicList e"
    proof (rule nth_equalityI)
      show "length (periodicList e2) = length (periodicList e)"
        using l2 first(3) ll by simp
      fix j assume "j < length (periodicList e2)"
      then have j: "j < ?N" using l2 first(3) by simp
      show "periodicList e2 ! j = periodicList e ! j"
      proof (cases "periodicNodes e1 ! j = Some qh")
        case True
        with fl j first(3) have "periodicList e2 ! j = hw_ptr pf (qh_next (qhs e1 qh))"
          by (simp add: hw_ptr_def)
        with heads j True show ?thesis by simp
      next
        case False
        with fl have "periodicList e2 ! j = periodicList e1 ! j" by simp
        with first(4) j False show ?thesis by auto
      qed
    qed
    have "\<forall>x. x \<noteq> qh \<longrightarrow> qh_next (qhs e2 x) = qh_next (qhs e x) \<and>
                         qh_horizontal (qhs e2 x) = qh_horizontal (qhs e x)"
      using q first(1) by simp
    with u nodes flist show ?thesis by (simp add: ehci_qhUnlinkPeriodic_def)
  next
    case inside
    have others: "\<forall>x. x \<noteq> a \<and> x \<noteq> qh \<longrightarrow> qh_next (qhs e1 x) = qh_next (qhs e x)"
      using inside(5) by simp
    have nx: "qh_next (qhs e a) = qh_next (qhs e1 qh)" using inside(3) by simp
    have ch: "\<forall>j. 0 \<le> j \<and> j < ?N \<longrightarrow>
               (\<exists>as. qh_chain (qhs e) (periodicNodes e1 ! j) as \<and> qh \<notin> set as)"
      using fresh inside(6) by simp
    let ?R = "(qhs e1)(a := (qhs e1 a)\<lparr>qh_next := qh_next (qhs e1 qh),
                         qh_horizontal := hw_ptr pf (qh_next (qhs e1 qh))\<rparr>)"
    from inside(4) inside(6)
    have ex: "\<exists>j as. 0 \<le> j \<and> j < ?N \<and> qh_chain (qhs e) (periodicNodes e1 ! j) as \<and> a \<in> set as"
      by simp
    from unlinkPeriodic_slots_pred [OF inside(1,2) others nx ch] ex obtain e2 where
      u: "unlinkPeriodic_slots pf e1 qh 0 = Some e2"
      and arr: "periodicNodes e2 = periodicNodes e1" "periodicList e2 = periodicList e1"
      and q: "qhs e2 = ?R" by blast
    have "qh_next (qhs e2 x) = qh_next (qhs e x) \<and>
          qh_horizontal (qhs e2 x) = qh_horizontal (qhs e x)" if "x \<noteq> qh" for x
    proof (cases "x = a")
      case True
      from pred inside(1,2) have "qh_horizontal (qhs e a) = hw_ptr pf (qh_next (qhs e a))"
        by blast
      with True nx show ?thesis by (simp add: q)
    next
      case False
      with that inside(5) show ?thesis by (simp add: q)
    qed
    with u arr inside(6,7) show ?thesis by (simp add: ehci_qhUnlinkPeriodic_def)
  qed
qed

text \<open>
  Where the round trip holds. Linking a QH into the asynchronous schedule and
  unlinking it again gives the head of the ring, its predecessor, the horizontal
  pointer (and the successor) it had before the link; the QH is not the head and
  not already behind it, and the ring is closed. Linking a QH that is on no chain
  into the periodic schedule and unlinking it again restores every slot of the
  owner array and of the frame list, and the successor and the horizontal pointer
  of every other QH, when the state before the link was such that every slot the
  QH became the head of held the successor the QH got, with the pointer word of
  that successor in the frame list, and the horizontal pointer of the QH it was
  put behind was the pointer word of that QH's successor.
\<close>

lemma link_unlink_restores:
  "(asyncList e = Some ah \<and> qh \<noteq> ah \<and> qh_next (qhs e ah) \<noteq> None \<and>
    qh_next (qhs e ah) \<noteq> Some qh \<longrightarrow>
      (\<exists>a1 a2. ehci_qhLinkAsync pf e qh = Some a1 \<and> ehci_qhUnlinkAsync a1 qh = Some a2 \<and>
               qh_horizontal (qhs a2 ah) = qh_horizontal (qhs e ah) \<and>
               qh_next (qhs a2 ah) = qh_next (qhs e ah))) \<and>
   (0 < EHCI_PERIODIC_SIZE pf \<and> EHCI_PERIODIC_SIZE pf \<le> 1024 \<and>
    length (periodicNodes e) = EHCI_PERIODIC_SIZE pf \<and>
    length (periodicList e) = EHCI_PERIODIC_SIZE pf \<and>
    (\<forall>i < EHCI_PERIODIC_SIZE pf.
       \<exists>as. qh_chain (qhs e) (periodicNodes e ! i) as \<and> qh \<notin> set as) \<and>
    ehci_qhLinkPeriodic pf e qh = Some e1 \<and>
    (\<forall>i < EHCI_PERIODIC_SIZE pf. periodicNodes e1 ! i = Some qh \<longrightarrow>
       periodicNodes e ! i = qh_next (qhs e1 qh) \<and>
       periodicList e ! i = hw_ptr pf (qh_next (qhs e1 qh))) \<and>
    (\<forall>a. a \<noteq> qh \<and> qh_next (qhs e1 a) = Some qh \<longrightarrow>
       qh_horizontal (qhs e a) = hw_ptr pf (qh_next (qhs e a))) \<longrightarrow>
      (\<exists>e2. ehci_qhUnlinkPeriodic pf e1 qh = Some e2 \<and>
            periodicNodes e2 = periodicNodes e \<and> periodicList e2 = periodicList e \<and>
            (\<forall>x. x \<noteq> qh \<longrightarrow> qh_next (qhs e2 x) = qh_next (qhs e x) \<and>
                             qh_horizontal (qhs e2 x) = qh_horizontal (qhs e x))))"
proof (intro conjI impI)
  assume "asyncList e = Some ah \<and> qh \<noteq> ah \<and> qh_next (qhs e ah) \<noteq> None \<and>
    qh_next (qhs e ah) \<noteq> Some qh"
  then show "\<exists>a1 a2. ehci_qhLinkAsync pf e qh = Some a1 \<and> ehci_qhUnlinkAsync a1 qh = Some a2 \<and>
               qh_horizontal (qhs a2 ah) = qh_horizontal (qhs e ah) \<and>
               qh_next (qhs a2 ah) = qh_next (qhs e ah)"
    by (intro async_link_unlink) simp_all
next
  assume h: "0 < EHCI_PERIODIC_SIZE pf \<and> EHCI_PERIODIC_SIZE pf \<le> 1024 \<and>
    length (periodicNodes e) = EHCI_PERIODIC_SIZE pf \<and>
    length (periodicList e) = EHCI_PERIODIC_SIZE pf \<and>
    (\<forall>i < EHCI_PERIODIC_SIZE pf.
       \<exists>as. qh_chain (qhs e) (periodicNodes e ! i) as \<and> qh \<notin> set as) \<and>
    ehci_qhLinkPeriodic pf e qh = Some e1 \<and>
    (\<forall>i < EHCI_PERIODIC_SIZE pf. periodicNodes e1 ! i = Some qh \<longrightarrow>
       periodicNodes e ! i = qh_next (qhs e1 qh) \<and>
       periodicList e ! i = hw_ptr pf (qh_next (qhs e1 qh))) \<and>
    (\<forall>a. a \<noteq> qh \<and> qh_next (qhs e1 a) = Some qh \<longrightarrow>
       qh_horizontal (qhs e a) = hw_ptr pf (qh_next (qhs e a)))"
  show "\<exists>e2. ehci_qhUnlinkPeriodic pf e1 qh = Some e2 \<and>
            periodicNodes e2 = periodicNodes e \<and> periodicList e2 = periodicList e \<and>
            (\<forall>x. x \<noteq> qh \<longrightarrow> qh_next (qhs e2 x) = qh_next (qhs e x) \<and>
                             qh_horizontal (qhs e2 x) = qh_horizontal (qhs e x))"
    using h by (elim conjE) (rule periodic_link_unlink, assumption+)
qed

text \<open>
  An example: on a controller fresh from \<open>ehci_init\<close>, QH 1 of period 1 is
  linked behind the dummy head 0 and unlinked, and it is linked into the empty
  periodic schedule and unlinked. Both round trips restore the schedule.
\<close>

lemma link_unlink_restores_example:
  "asyncList intr_ready = Some 0 \<and> qh_next (qhs intr_ready 0) = Some 0 \<and>
   (\<exists>a1 a2. ehci_qhLinkAsync pf0 intr_ready 1 = Some a1 \<and> ehci_qhUnlinkAsync a1 1 = Some a2 \<and>
            qh_horizontal (qhs a2 0) = qh_horizontal (qhs intr_ready 0) \<and>
            qh_next (qhs a2 0) = qh_next (qhs intr_ready 0)) \<and>
   (\<exists>e1 e2. ehci_qhLinkPeriodic pf0 intr_ready 1 = Some e1 \<and>
            ehci_qhUnlinkPeriodic pf0 e1 1 = Some e2 \<and>
            periodicNodes e2 = periodicNodes intr_ready \<and>
            periodicList e2 = periodicList intr_ready \<and>
            (\<forall>x. x \<noteq> 1 \<longrightarrow> qh_next (qhs e2 x) = qh_next (qhs intr_ready x) \<and>
                             qh_horizontal (qhs e2 x) = qh_horizontal (qhs intr_ready x)))"
proof -
  have n: "0 < EHCI_PERIODIC_SIZE pf0" "EHCI_PERIODIC_SIZE pf0 \<le> 1024"
    "length (periodicNodes intr_ready) = EHCI_PERIODIC_SIZE pf0"
    "length (periodicList intr_ready) = EHCI_PERIODIC_SIZE pf0"
    by (simp_all add: pf0_def intr_ready_def ehci0_def)
  have as: "asyncList intr_ready = Some 0" "(1 :: addr) \<noteq> 0"
    "qh_next (qhs intr_ready 0) = Some 0"
    by (simp_all add: intr_ready_def ehci0_def)
  have slot: "periodicNodes intr_ready ! i = None \<and> periodicList intr_ready ! i = 1"
    if "i < EHCI_PERIODIC_SIZE pf0" for i
    using that by (simp add: pf0_def intr_ready_def ehci0_def)
  have nxt: "qh_next (qhs intr_ready a) \<noteq> Some 1" for a
    by (simp add: intr_ready_def ehci0_def reset_qh_def)
  have fresh: "\<forall>i < EHCI_PERIODIC_SIZE pf0.
                 \<exists>as. qh_chain (qhs intr_ready) (periodicNodes intr_ready ! i) as \<and> 1 \<notin> set as"
  proof (intro allI impI)
    fix i assume "i < EHCI_PERIODIC_SIZE pf0"
    with slot have "qh_chain (qhs intr_ready) (periodicNodes intr_ready ! i) []" by simp
    then show "\<exists>as. qh_chain (qhs intr_ready) (periodicNodes intr_ready ! i) as \<and> 1 \<notin> set as"
      by (intro exI [of _ "[]"]) simp
  qed
  have "qh_chain (qhs intr_ready) (periodicNodes intr_ready ! 0) []"
    using slot [of 0] n(1) by simp
  from ehci_qhLinkPeriodic_period_one [OF _ this n(1,2), of 1] obtain e1 where
    link: "ehci_qhLinkPeriodic pf0 intr_ready 1 = Some e1"
    by (auto simp: intr_ready_def)
  have empty: "as = []"
    if "j < EHCI_PERIODIC_SIZE pf0" "qh_chain (qhs intr_ready) (periodicNodes intr_ready ! j) as"
    for j as
    using that slot [of j] by (cases as) simp_all
  from ehci_qhLinkPeriodic_shape [OF link n fresh] empty
  have first: "\<forall>x. x \<noteq> 1 \<longrightarrow> qhs e1 x = qhs intr_ready x"
    and nx: "\<exists>p < EHCI_PERIODIC_SIZE pf0. qh_next (qhs e1 1) = periodicNodes intr_ready ! p"
    by fastforce+
  from nx slot have none: "qh_next (qhs e1 1) = None" by auto
  have heads: "\<forall>i < EHCI_PERIODIC_SIZE pf0. periodicNodes e1 ! i = Some 1 \<longrightarrow>
                  periodicNodes intr_ready ! i = qh_next (qhs e1 1) \<and>
                  periodicList intr_ready ! i = hw_ptr pf0 (qh_next (qhs e1 1))"
    unfolding none hw_ptr_def QH_PTR_INVALID_def using slot by simp
  have pred: "\<forall>a. a \<noteq> 1 \<and> qh_next (qhs e1 a) = Some 1 \<longrightarrow>
                qh_horizontal (qhs intr_ready a) = hw_ptr pf0 (qh_next (qhs intr_ready a))"
    using first nxt by auto
  have ah: "asyncList intr_ready = Some 0 \<and> (1 :: addr) \<noteq> 0 \<and>
            qh_next (qhs intr_ready 0) \<noteq> None \<and> qh_next (qhs intr_ready 0) \<noteq> Some 1"
    using as nxt [of 0] by simp
  have ph: "0 < EHCI_PERIODIC_SIZE pf0 \<and> EHCI_PERIODIC_SIZE pf0 \<le> 1024 \<and>
    length (periodicNodes intr_ready) = EHCI_PERIODIC_SIZE pf0 \<and>
    length (periodicList intr_ready) = EHCI_PERIODIC_SIZE pf0 \<and>
    (\<forall>i < EHCI_PERIODIC_SIZE pf0.
       \<exists>as. qh_chain (qhs intr_ready) (periodicNodes intr_ready ! i) as \<and> 1 \<notin> set as) \<and>
    ehci_qhLinkPeriodic pf0 intr_ready 1 = Some e1 \<and>
    (\<forall>i < EHCI_PERIODIC_SIZE pf0. periodicNodes e1 ! i = Some 1 \<longrightarrow>
       periodicNodes intr_ready ! i = qh_next (qhs e1 1) \<and>
       periodicList intr_ready ! i = hw_ptr pf0 (qh_next (qhs e1 1))) \<and>
    (\<forall>a. a \<noteq> 1 \<and> qh_next (qhs e1 a) = Some 1 \<longrightarrow>
       qh_horizontal (qhs intr_ready a) = hw_ptr pf0 (qh_next (qhs intr_ready a)))"
    using n fresh link heads pred by (intro conjI)
  note inst = link_unlink_restores [of intr_ready 0 1 pf0 e1]
  from inst [THEN conjunct1, rule_format, OF ah]
  have a: "\<exists>a1 a2. ehci_qhLinkAsync pf0 intr_ready 1 = Some a1 \<and> ehci_qhUnlinkAsync a1 1 = Some a2 \<and>
            qh_horizontal (qhs a2 0) = qh_horizontal (qhs intr_ready 0) \<and>
            qh_next (qhs a2 0) = qh_next (qhs intr_ready 0)" .
  from inst [THEN conjunct2, rule_format, OF ph] link
  have p: "\<exists>e1 e2. ehci_qhLinkPeriodic pf0 intr_ready 1 = Some e1 \<and>
            ehci_qhUnlinkPeriodic pf0 e1 1 = Some e2 \<and>
            periodicNodes e2 = periodicNodes intr_ready \<and>
            periodicList e2 = periodicList intr_ready \<and>
            (\<forall>x. x \<noteq> 1 \<longrightarrow> qh_next (qhs e2 x) = qh_next (qhs intr_ready x) \<and>
                             qh_horizontal (qhs e2 x) = qh_horizontal (qhs intr_ready x))"
    by blast
  from as(1,3) a p show ?thesis by (intro conjI)
qed

text \<open>
  C7. The code does not do what the claim says. In \<open>staggered_sched\<close> slot 2
  belongs to QH 3. Band allocation gives QH 1, of period 2, the phase 0, whose
  slot is empty, so \<open>ehci_qhLinkPeriodic\<close> makes the QH the new first element:
  it keeps the head of slot 0 (none) as the successor of the QH and writes the QH
  into the slots 0, 2, 4, ..., also into slot 2, whose head was QH 3 and is kept
  nowhere. \<open>ehci_qhUnlinkPeriodic\<close> then gives each of these slots the successor
  of QH 1: after link and unlink slot 2 has no owner and the frame list entry
  \<open>QH_PTR_INVALID\<close>, where it had the owner 3 and the entry 98.
\<close>

theorem link_unlink_loses_slot:
  "periodicNodes staggered_sched ! 2 = Some 3 \<and> periodicList staggered_sched ! 2 = 98 \<and>
   slot_after_link_unlink pf0 staggered_sched 1 2 = Some (None, 1)"
proof -
  let ?S = staggered_sched
  have N: "EHCI_PERIODIC_SIZE pf0 = 128" by (simp add: pf0_def)
  have len: "length (periodicNodes ?S) = 128" "length (periodicList ?S) = 128"
    by (simp_all add: staggered_sched_def)
  have nd: "periodicNodes ?S ! j =
              (if j mod 4 = 1 then Some 2 else if j mod 4 = 2 then Some 3 else None)"
    if "j < 128" for j
    using that by (simp add: staggered_sched_def)
  have fl: "periodicList ?S ! j = (if j mod 4 = 1 then 66 else if j mod 4 = 2 then 98 else 1)"
    if "j < 128" for j
    using that by (simp add: staggered_sched_def)
  have nx: "qh_next (qhs ?S x) = (if x = 0 then Some 0 else None)" for x
    by (simp add: staggered_sched_def ehci0_def reset_qh_def)
  have q1: "qh_period (qhs ?S 1) = 2" "qh_info0 (qhs ?S 1) AND QH_HIGH_SPEED = 0"
    by (simp_all add: staggered_sched_def QH_HIGH_SPEED_def)
  have n0: "periodicNodes ?S ! 0 = None" using nd [of 0] by simp
  have n1: "periodicNodes ?S ! Suc 0 = Some 2" using nd [of "Suc 0"] by simp
  have c0: "bandAlloc_count (qhs ?S) (periodicNodes ?S ! 0) 0 = Some 0"
    using bandAlloc_count_chain [of "qhs ?S" "periodicNodes ?S ! 0" "[]" 0] n0 by simp
  have c1: "bandAlloc_count (qhs ?S) (periodicNodes ?S ! Suc 0) 0 = Some 1"
    using bandAlloc_count_chain [of "qhs ?S" "periodicNodes ?S ! Suc 0" "[2]" 0] n1 nx
    by simp
  have s2: "bandAlloc_phase pf0 ?S 2 (Suc (Suc 0)) b p = Some p" for b p
    by (subst bandAlloc_phase.simps) simp
  have s1: "bandAlloc_phase pf0 ?S 2 (Suc 0) 0 0 = Some 0"
    by (subst bandAlloc_phase.simps) (simp add: N c1 s2)
  have m: "(0 :: u32) < - 1" by (simp add: word_gt_0)
  have ph: "bandAlloc_phase pf0 ?S 2 0 (- 1) 0 = Some 0"
    by (subst bandAlloc_phase.simps) (simp add: N c0 s1 m)
  define eb where "eb = ?S\<lparr>qhs := (qhs ?S)(1 := (qhs ?S 1)\<lparr>qh_phase := 0, qh_uframe := 0xff\<rparr>)\<rparr>"
  have b: "ehci_bandAlloc pf0 ?S 1 = Some eb"
    using ph q1 by (simp add: ehci_bandAlloc_def eb_def)
  define em where "em = linkPeriodic_masks eb 1"
  have em: "periodicNodes em = periodicNodes ?S" "periodicList em = periodicList ?S"
    "qh_period (qhs em 1) = 2" "unat (qh_phase (qhs em 1)) = 0"
    using q1(1) by (simp_all add: em_def eb_def linkPeriodic_masks_def)
  have em_next: "qh_next (qhs em x) = qh_next (qhs ?S x)" for x
    by (simp add: em_def eb_def linkPeriodic_masks_def)
  have f: "linkPeriodic_find (qhs em) (periodicNodes ?S ! 0) 2 = Some None"
    by (subst linkPeriodic_find.simps) (simp add: n0)
  define em1 where "em1 = em\<lparr>qhs := (qhs em)(1 := (qhs em 1)\<lparr>qh_next := None\<rparr>)\<rparr>"
  have "\<exists>r. linkPeriodic_slots pf0 1 2 0 (periodicNodes ?S) (periodicList ?S) = Some r"
    by (rule linkPeriodic_slots_total) (simp_all add: N)
  then obtain nodes' fl' where
    s: "linkPeriodic_slots pf0 1 2 0 (periodicNodes ?S) (periodicList ?S) = Some (nodes', fl')"
    by auto
  define e3 where "e3 = em1\<lparr>periodicNodes := nodes', periodicList := fl'\<rparr>"
  have first: "linkPeriodic_first pf0 em 1 = Some e3"
    using s by (simp add: linkPeriodic_first_def Let_def em n0 em1_def e3_def del: One_nat_def)
  define e1 where "e1 = linkPeriodic_last e3 1"
  have link: "ehci_qhLinkPeriodic pf0 ?S 1 = Some e1"
    using b f first
    by (simp add: ehci_qhLinkPeriodic_def Let_def em_def [symmetric] em e1_def
        del: One_nat_def)
  have e1_arr: "periodicNodes e1 = nodes'" "periodicList e1 = fl'"
    by (simp_all add: e1_def linkPeriodic_last_def e3_def)
  have e1_next: "qh_next (qhs e1 x) = (if x = 0 then Some 0 else None)" for x
    using em_next [of x] nx [of x]
    by (auto simp: e1_def linkPeriodic_last_def e3_def em1_def)
  note res = linkPeriodic_slots_result [OF s]
  have l': "length nodes' = 128" "length fl' = 128" using res len by simp_all
  have nd': "nodes' ! j = (if j mod 2 = 0 then Some 1 else periodicNodes ?S ! j)"
    if "j < 128" for j
    using res that len by (simp add: N)
  have hyp: "\<forall>j. 0 \<le> j \<and> j < EHCI_PERIODIC_SIZE pf0 \<and> periodicNodes e1 ! j \<noteq> Some 1 \<longrightarrow>
             (\<exists>as. qh_chain (qhs e1) (periodicNodes e1 ! j) as \<and>
                   (\<forall>x \<in> set as. qh_next (qhs e1 x) \<noteq> Some 1))"
  proof (intro allI impI)
    fix j assume j: "0 \<le> j \<and> j < EHCI_PERIODIC_SIZE pf0 \<and> periodicNodes e1 ! j \<noteq> Some 1"
    then have j128: "j < 128" by (simp add: N)
    from j nd' [OF j128] have same: "periodicNodes e1 ! j = periodicNodes ?S ! j"
      by (simp add: e1_arr split: if_splits)
    have np: "\<forall>x \<in> set as. qh_next (qhs e1 x) \<noteq> Some 1" for as
      by (simp add: e1_next)
    consider "periodicNodes ?S ! j = Some 2" | "periodicNodes ?S ! j = Some 3"
      | "periodicNodes ?S ! j = None"
      using nd [OF j128] by (auto split: if_splits)
    then have "\<exists>as. qh_chain (qhs e1) (periodicNodes ?S ! j) as"
    proof cases
      case 1
      then have "qh_chain (qhs e1) (periodicNodes ?S ! j) [2]" by (simp add: e1_next)
      then show ?thesis by blast
    next
      case 2
      then have "qh_chain (qhs e1) (periodicNodes ?S ! j) [3]" by (simp add: e1_next)
      then show ?thesis by blast
    next
      case 3
      then have "qh_chain (qhs e1) (periodicNodes ?S ! j) []" by simp
      then show ?thesis by blast
    qed
    with np same
    show "\<exists>as. qh_chain (qhs e1) (periodicNodes e1 ! j) as \<and>
                (\<forall>x \<in> set as. qh_next (qhs e1 x) \<noteq> Some 1)" by auto
  qed
  from unlinkPeriodic_slots_heads [OF hyp] obtain e2 where
    u: "unlinkPeriodic_slots pf0 e1 1 0 = Some e2"
    and nd2: "\<forall>j. periodicNodes e2 ! j =
                (if 0 \<le> j \<and> j < EHCI_PERIODIC_SIZE pf0 \<and> j < length (periodicNodes e1) \<and>
                    periodicNodes e1 ! j = Some 1
                 then qh_next (qhs e1 1) else periodicNodes e1 ! j)"
    and fl2: "\<forall>j. periodicList e2 ! j =
                (if 0 \<le> j \<and> j < EHCI_PERIODIC_SIZE pf0 \<and> j < length (periodicList e1) \<and>
                    periodicNodes e1 ! j = Some 1
                 then (if qh_next (qhs e1 1) \<noteq> None then QH_PTR pf0 (qh_next (qhs e1 1))
                       else QH_PTR_INVALID)
                 else periodicList e1 ! j)"
    by blast
  have two: "periodicNodes e1 ! 2 = Some 1" using nd' [of 2] by (simp add: e1_arr)
  have a: "periodicNodes e2 ! 2 = None"
    using nd2 [rule_format, of 2] two by (simp add: N e1_arr l' e1_next)
  have c: "periodicList e2 ! 2 = 1"
    using fl2 [rule_format, of 2] two by (simp add: N e1_arr l' e1_next QH_PTR_INVALID_def)
  have r: "slot_after_link_unlink pf0 ?S 1 2 = Some (None, 1)"
    using link u a c by (simp add: slot_after_link_unlink_def ehci_qhUnlinkPeriodic_def)
  from nd [of 2] fl [of 2] r show ?thesis by simp
qed

end
